theory Spec2Isabelle
  imports
    Complex_Main
    "HOL-Library.AList"
    "HOL-Library.Char_ord"
    "HOL-Library.List_Lexorder"
    "HOL-Library.Sublist"
begin

section \<open>JSON-like values\<close>

text \<open>
  The tools and the adapter of the repository work on the airline dataset, a tree of Python
  values as \<^verbatim>\<open>json.load\<close> builds it: \<^verbatim>\<open>None\<close>, booleans, integers, strings, lists and
  dictionaries with string keys. A dictionary is an association list: Python dictionaries
  keep the order of insertion, and \<^verbatim>\<open>json.dumps\<close> prints in that order. A string is a list
  of code points below 256. Floating-point numbers are not part of the model (the amounts of
  the airline data are integers). The tree holds no shared sub-objects, as after
  \<^verbatim>\<open>json.load\<close>.
\<close>

datatype json =
    JNull
  | JBool bool
  | JInt int
  | JStr string
  | JList "json list"
  | JDict "(string \<times> json) list"

text \<open>The exceptions the tool code can raise by itself.\<close>

datatype exn = KeyError string | TypeError | AttributeError

subsection \<open>Decimal and hexadecimal digits\<close>

definition digit_char :: "nat \<Rightarrow> char" where
  "digit_char d = char_of (of_char (CHR ''0'') + d)"

fun digits :: "nat \<Rightarrow> string" where
  "digits n = (if n < 10 then [digit_char n] else digits (n div 10) @ [digit_char (n mod 10)])"

declare digits.simps [simp del]

definition int_str :: "int \<Rightarrow> string" where
  "int_str i = (if i < 0 then CHR ''-'' # digits (nat (- i)) else digits (nat i))"

definition hex_char :: "nat \<Rightarrow> char" where
  "hex_char d = (if d < 10 then digit_char d else char_of (of_char (CHR ''a'') + (d - 10)))"

definition hex2 :: "char \<Rightarrow> string" where
  "hex2 c = [hex_char (of_char c div 16), hex_char (of_char c mod 16)]"

fun join :: "string \<Rightarrow> string list \<Rightarrow> string" where
  "join sep [] = []"
| "join sep [x] = x"
| "join sep (x # y # ys) = x @ sep @ join sep (y # ys)"

subsection \<open>\<^verbatim>\<open>json.dumps\<close> with its default arguments\<close>

text \<open>
  \<^verbatim>\<open>ensure_ascii=True\<close>: the quote and the backslash are escaped, the control characters
  with a short form get it, every other character outside \<^verbatim>\<open>' '..'~'\<close> is printed as
  \<^verbatim>\<open>\uXXXX\<close> with lower-case digits. Items are separated by \<^verbatim>\<open>", "\<close>, keys from values
  by \<^verbatim>\<open>": "\<close>.
\<close>

definition json_escape_char :: "char \<Rightarrow> string" where
  "json_escape_char c =
     (if c = CHR 0x22 then [CHR 0x5C, CHR 0x22]
      else if c = CHR 0x5C then [CHR 0x5C, CHR 0x5C]
      else if c = CHR 0x0A then [CHR 0x5C, CHR ''n'']
      else if c = CHR 0x0D then [CHR 0x5C, CHR ''r'']
      else if c = CHR 0x09 then [CHR 0x5C, CHR ''t'']
      else if c = CHR 0x08 then [CHR 0x5C, CHR ''b'']
      else if c = CHR 0x0C then [CHR 0x5C, CHR ''f'']
      else if (32::nat) \<le> of_char c \<and> of_char c \<le> (126::nat) then [c]
      else [CHR 0x5C, CHR ''u'', CHR ''0'', CHR ''0''] @ hex2 c)"

definition json_dumps_str :: "string \<Rightarrow> string" where
  "json_dumps_str s = [CHR 0x22] @ concat (map json_escape_char s) @ [CHR 0x22]"

fun json_dumps :: "json \<Rightarrow> string"
  and json_dumps_elems :: "json list \<Rightarrow> string list"
  and json_dumps_items :: "(string \<times> json) list \<Rightarrow> string list"
where
  "json_dumps JNull = ''null''"
| "json_dumps (JBool b) = (if b then ''true'' else ''false'')"
| "json_dumps (JInt i) = int_str i"
| "json_dumps (JStr s) = json_dumps_str s"
| "json_dumps (JList xs) = ''['' @ join '', '' (json_dumps_elems xs) @ '']''"
| "json_dumps (JDict d) = ''{'' @ join '', '' (json_dumps_items d) @ ''}''"
| "json_dumps_elems [] = []"
| "json_dumps_elems (x # xs) = json_dumps x # json_dumps_elems xs"
| "json_dumps_items [] = []"
| "json_dumps_items ((k, v) # d) = (json_dumps_str k @ '': '' @ json_dumps v) # json_dumps_items d"

section \<open>The tool \<^verbatim>\<open>CancelReservation\<close>\<close>

subsection \<open>The Python operations the tool uses, on JSON-like values\<close>

text \<open>\<^verbatim>\<open>obj[key]\<close> for a string key: only a dictionary accepts it.\<close>

fun subscript :: "json \<Rightarrow> string \<Rightarrow> exn + json" where
  "subscript (JDict d) k = (case map_of d k of None \<Rightarrow> Inl (KeyError k) | Some v \<Rightarrow> Inr v)"
| "subscript _ k = Inl TypeError"

text \<open>
  \<^verbatim>\<open>key in obj\<close> for a string key: a key of a dictionary, an element of a list, a substring
  of a string; the other values are not containers.
\<close>

fun contains :: "json \<Rightarrow> string \<Rightarrow> exn + bool" where
  "contains (JDict d) k = Inr (k \<in> set (map fst d))"
| "contains (JList xs) k = Inr (JStr k \<in> set xs)"
| "contains (JStr s) k = Inr (sublist k s)"
| "contains _ k = Inl TypeError"

text \<open>\<^verbatim>\<open>for payment in obj\<close>: the elements of a list, the keys of a dictionary, the
  characters of a string.\<close>

fun iterate :: "json \<Rightarrow> exn + json list" where
  "iterate (JList xs) = Inr xs"
| "iterate (JDict d) = Inr (map (\<lambda>kv. JStr (fst kv)) d)"
| "iterate (JStr s) = Inr (map (\<lambda>c. JStr [c]) s)"
| "iterate _ = Inl TypeError"

text \<open>Unary minus: defined on integers and on booleans (which Python counts as 0 and 1).\<close>

fun neg :: "json \<Rightarrow> exn + json" where
  "neg (JInt n) = Inr (JInt (- n))"
| "neg (JBool b) = Inr (JInt (- (if b then 1 else 0)))"
| "neg _ = Inl TypeError"

text \<open>\<^verbatim>\<open>obj.extend(more)\<close>: a method of lists only.\<close>

fun extend :: "json \<Rightarrow> json list \<Rightarrow> exn + json" where
  "extend (JList xs) more = Inr (JList (xs @ more))"
| "extend _ more = Inl AttributeError"

text \<open>\<^verbatim>\<open>d[key] = value\<close> on a dictionary: an existing key keeps its place, a new key goes
  to the end.\<close>

fun setitem :: "json \<Rightarrow> string \<Rightarrow> json \<Rightarrow> json" where
  "setitem (JDict d) k v = JDict (AList.update k v d)"
| "setitem other k v = other"

subsection \<open>\<^verbatim>\<open>CancelReservation.invoke\<close>\<close>

text \<open>One element of the list comprehension: the dictionary display evaluates
  \<^verbatim>\<open>payment["payment_id"]\<close>, then \<^verbatim>\<open>payment["amount"]\<close>, then the negation.\<close>

definition refund :: "json \<Rightarrow> exn + json" where
  "refund payment =
     (case subscript payment ''payment_id'' of
        Inl e \<Rightarrow> Inl e
      | Inr pid \<Rightarrow>
          (case subscript payment ''amount'' of
             Inl e \<Rightarrow> Inl e
           | Inr amount \<Rightarrow>
               (case neg amount of
                  Inl e \<Rightarrow> Inl e
                | Inr namount \<Rightarrow> Inr (JDict [(''payment_id'', pid), (''amount'', namount)]))))"

fun refunds :: "json list \<Rightarrow> exn + json list" where
  "refunds [] = Inr []"
| "refunds (payment # rest) =
     (case refund payment of
        Inl e \<Rightarrow> Inl e
      | Inr r \<Rightarrow> (case refunds rest of Inl e \<Rightarrow> Inl e | Inr rs \<Rightarrow> Inr (r # rs)))"

text \<open>
  The tool takes the dataset and returns a string or raises; it changes the dataset in
  place. The model returns the outcome together with the dataset after the call. The two
  statements that mutate (\<^verbatim>\<open>extend\<close> and the assignment of the status) come after every
  expression that can raise, and \<^verbatim>\<open>extend\<close> raises before it changes anything, so each
  exception leaves the dataset as it was.
\<close>

definition invoke :: "json \<Rightarrow> string \<Rightarrow> (exn + string) \<times> json" where
  "invoke data reservation_id =
     (case subscript data ''reservations'' of
        Inl e \<Rightarrow> (Inl e, data)
      | Inr reservations \<Rightarrow>
     (case contains reservations reservation_id of
        Inl e \<Rightarrow> (Inl e, data)
      | Inr present \<Rightarrow>
     if \<not> present then (Inr ''Error: reservation not found'', data)
     else
     (case subscript reservations reservation_id of
        Inl e \<Rightarrow> (Inl e, data)
      | Inr reservation \<Rightarrow>
     (case subscript reservation ''payment_history'' of
        Inl e \<Rightarrow> (Inl e, data)
      | Inr history \<Rightarrow>
     (case iterate history of
        Inl e \<Rightarrow> (Inl e, data)
      | Inr payments \<Rightarrow>
     (case refunds payments of
        Inl e \<Rightarrow> (Inl e, data)
      | Inr rs \<Rightarrow>
     (case extend history rs of
        Inl e \<Rightarrow> (Inl e, data)
      | Inr history' \<Rightarrow>
          (let reservation' =
                 setitem (setitem reservation ''payment_history'' history')
                   ''status'' (JStr ''cancelled'')
           in (Inr (json_dumps reservation'),
               setitem data ''reservations''
                 (setitem reservations reservation_id reservation'))))))))))"

subsection \<open>Reading a dataset\<close>

text \<open>
  The data model of the specification: a reservation carries a payment history, an ordered
  sequence of entries with a payment method id and a signed amount. The following functions
  read these parts off a JSON-like value; they are used to state the properties of the tool.
\<close>

definition payment_id_of :: "json \<Rightarrow> json option" where
  "payment_id_of p = (case subscript p ''payment_id'' of Inr v \<Rightarrow> Some v | Inl e \<Rightarrow> None)"

definition amount_of :: "json \<Rightarrow> int option" where
  "amount_of p = (case subscript p ''amount'' of Inr (JInt a) \<Rightarrow> Some a | _ \<Rightarrow> None)"

text \<open>A payment entry of the data model: it has a payment id and an integer amount.\<close>

definition is_payment :: "json \<Rightarrow> bool" where
  "is_payment p = (payment_id_of p \<noteq> None \<and> amount_of p \<noteq> None)"

text \<open>The entry a cancellation appends for a payment: same payment id, negated amount.\<close>

definition refund_entry :: "json \<Rightarrow> json" where
  "refund_entry p =
     (case payment_id_of p of
        None \<Rightarrow> JNull
      | Some pid \<Rightarrow>
          (case amount_of p of
             None \<Rightarrow> JNull
           | Some a \<Rightarrow> JDict [(''payment_id'', pid), (''amount'', JInt (- a))]))"

text \<open>The sum of the amounts of a payment history (\<open>None\<close> when an entry has no amount).\<close>

fun total_amount :: "json list \<Rightarrow> int option" where
  "total_amount [] = Some 0"
| "total_amount (p # ps) =
     (case amount_of p of
        None \<Rightarrow> None
      | Some a \<Rightarrow> (case total_amount ps of None \<Rightarrow> None | Some t \<Rightarrow> Some (a + t)))"

text \<open>\<^verbatim>\<open>data["reservations"][reservation_id]\<close>, when both lookups succeed.\<close>

definition reservation_of :: "json \<Rightarrow> string \<Rightarrow> json option" where
  "reservation_of data rid =
     (case subscript data ''reservations'' of
        Inl e \<Rightarrow> None
      | Inr rs \<Rightarrow> (case subscript rs rid of Inl e \<Rightarrow> None | Inr r \<Rightarrow> Some r))"

text \<open>The fields of a reservation after a cancellation, as the tool leaves them.\<close>

definition cancelled :: "(string \<times> json) list \<Rightarrow> json list \<Rightarrow> (string \<times> json) list" where
  "cancelled r ph =
     AList.update ''status'' (JStr ''cancelled'')
       (AList.update ''payment_history'' (JList (ph @ map refund_entry ph)) r)"

subsection \<open>The dataset of the end-to-end scenarios\<close>

definition example_history :: "json list" where
  "example_history = [JDict [(''payment_id'', JStr ''credit_card_1''), (''amount'', JInt 100)]]"

definition example_reservation :: json where
  "example_reservation =
     JDict [(''reservation_id'', JStr ''4WQ150''),
            (''payment_history'', JList example_history),
            (''status'', JStr ''active'')]"

definition other_reservation :: json where
  "other_reservation =
     JDict [(''reservation_id'', JStr ''ZFA04Y''),
            (''payment_history'',
               JList [JDict [(''payment_id'', JStr ''gift_card_7''), (''amount'', JInt 250)]]),
            (''status'', JStr ''active'')]"

definition example_reservations :: "(string \<times> json) list" where
  "example_reservations = [(''4WQ150'', example_reservation), (''ZFA04Y'', other_reservation)]"

definition example_dataset :: json where
  "example_dataset =
     JDict [(''reservations'', JDict example_reservations),
            (''users'', JDict [(''mia_li_3668'', JDict [])])]"

section \<open>The benchmark adapter: comparing two datasets\<close>

subsection \<open>\<^verbatim>\<open>str\<close> and \<^verbatim>\<open>repr\<close> of JSON-like values\<close>

text \<open>
  \<^verbatim>\<open>repr\<close> of a string: single quotes, unless the string has a single quote and no double
  quote; the quote and the backslash are escaped, tab, newline and carriage return have
  their short forms, the other non-printable characters are written \<^verbatim>\<open>\xNN\<close>.
\<close>

definition py_repr_char :: "char \<Rightarrow> char \<Rightarrow> string" where
  "py_repr_char quote c =
     (if c = quote \<or> c = CHR 0x5C then [CHR 0x5C, c]
      else if c = CHR 0x09 then [CHR 0x5C, CHR ''t'']
      else if c = CHR 0x0A then [CHR 0x5C, CHR ''n'']
      else if c = CHR 0x0D then [CHR 0x5C, CHR ''r'']
      else if of_char c < (32::nat) \<or> of_char c = (127::nat) then [CHR 0x5C, CHR ''x''] @ hex2 c
      else if of_char c < (127::nat) then [c]
      else if of_char c \<le> (160::nat) \<or> of_char c = (173::nat) then [CHR 0x5C, CHR ''x''] @ hex2 c
      else [c])"

definition py_repr_str :: "string \<Rightarrow> string" where
  "py_repr_str s =
     (let quote = (if CHR 0x27 \<in> set s \<and> CHR 0x22 \<notin> set s then CHR 0x22 else CHR 0x27)
      in [quote] @ concat (map (py_repr_char quote) s) @ [quote])"

fun py_repr :: "json \<Rightarrow> string"
  and py_repr_elems :: "json list \<Rightarrow> string list"
  and py_repr_items :: "(string \<times> json) list \<Rightarrow> string list"
where
  "py_repr JNull = ''None''"
| "py_repr (JBool b) = (if b then ''True'' else ''False'')"
| "py_repr (JInt i) = int_str i"
| "py_repr (JStr s) = py_repr_str s"
| "py_repr (JList xs) = ''['' @ join '', '' (py_repr_elems xs) @ '']''"
| "py_repr (JDict d) = ''{'' @ join '', '' (py_repr_items d) @ ''}''"
| "py_repr_elems [] = []"
| "py_repr_elems (x # xs) = py_repr x # py_repr_elems xs"
| "py_repr_items [] = []"
| "py_repr_items ((k, v) # d) = (py_repr_str k @ '': '' @ py_repr v) # py_repr_items d"

text \<open>\<^verbatim>\<open>str(x)\<close> is the string itself for a string and \<^verbatim>\<open>repr(x)\<close> otherwise.\<close>

fun py_str :: "json \<Rightarrow> string" where
  "py_str (JStr s) = s"
| "py_str x = py_repr x"

text \<open>\<^verbatim>\<open>type(x)\<close>.\<close>

datatype pytype = NoneType | PyBool | PyInt | PyStr | PyList | PyDict

fun py_type :: "json \<Rightarrow> pytype" where
  "py_type JNull = NoneType"
| "py_type (JBool b) = PyBool"
| "py_type (JInt i) = PyInt"
| "py_type (JStr s) = PyStr"
| "py_type (JList xs) = PyList"
| "py_type (JDict d) = PyDict"

subsection \<open>\<^verbatim>\<open>_collect_diffs\<close>\<close>

text \<open>
  A diff record is a dictionary with the keys \<^verbatim>\<open>path\<close>, \<^verbatim>\<open>agent\<close>, \<^verbatim>\<open>gt\<close> (two values that
  differ, or one that is missing) or with the keys \<^verbatim>\<open>path\<close>, \<^verbatim>\<open>agent_len\<close>, \<^verbatim>\<open>gt_len\<close> (two
  lists of different lengths).
\<close>

datatype diff =
    ValueDiff (diff_path: string) (diff_agent: string) (diff_gt: string)
  | LenDiff (diff_path: string) (diff_agent_len: nat) (diff_gt_len: nat)

text \<open>A bound on the size of the values stored in a dictionary, for the termination proof.\<close>

lemma size_map_of:
  "map_of d k = Some v \<Longrightarrow> size v < size_list (size_prod (\<lambda>_. 0) size) d"
  by (induction d) (auto split: if_splits)

lemma size_zip_fst:
  "size_list (\<lambda>p. size (fst p)) (zip xs ys) < Suc (size_list size xs)"
proof (induction xs arbitrary: ys)
  case Nil
  then show ?case by simp
next
  case (Cons x xs)
  then show ?case by (cases ys) (auto intro: less_SucI)
qed

text \<open>
  The function appends to its list \<^verbatim>\<open>diffs\<close> in place; the model takes the list as
  \<open>diffs'\<close> (the plain name is a constant of the library) and returns the list after the call. \<open>collect_dict_loop\<close> is the loop over the sorted keys of the two dictionaries and
  \<open>collect_list_loop\<close> the loop over \<^verbatim>\<open>enumerate(zip(agent, gt))\<close>, with the index of the
  next pair. In \<open>collect_dict_loop\<close> a key in neither dictionary does not occur: the keys
  are those of the union.
\<close>

function collect_diffs :: "json \<Rightarrow> json \<Rightarrow> string \<Rightarrow> diff list \<Rightarrow> int \<Rightarrow> diff list"
  and collect_dict_loop ::
    "string list \<Rightarrow> (string \<times> json) list \<Rightarrow> (string \<times> json) list \<Rightarrow> string \<Rightarrow> diff list \<Rightarrow> int
      \<Rightarrow> diff list"
  and collect_list_loop ::
    "(json \<times> json) list \<Rightarrow> nat \<Rightarrow> string \<Rightarrow> diff list \<Rightarrow> int \<Rightarrow> diff list"
where
  "collect_diffs agent gt path diffs' limit =
     (if limit \<le> int (length diffs') then diffs'
      else if py_type agent \<noteq> py_type gt then
        diffs' @ [ValueDiff path (py_str agent) (py_str gt)]
      else
        (case (agent, gt) of
           (JDict a, JDict g) \<Rightarrow>
             collect_dict_loop (sort (remdups (map fst a @ map fst g))) a g path diffs' limit
         | (JList a, JList g) \<Rightarrow>
             collect_list_loop (zip a g) 0 path
               (if length a \<noteq> length g then diffs' @ [LenDiff path (length a) (length g)]
                else diffs')
               limit
         | _ \<Rightarrow>
             (if agent \<noteq> gt then diffs' @ [ValueDiff path (py_str agent) (py_str gt)]
              else diffs')))"
| "collect_dict_loop [] a g path diffs' limit = diffs'"
| "collect_dict_loop (k # ks) a g path diffs' limit =
     (if limit \<le> int (length diffs') then diffs'
      else
        (let np = (if path \<noteq> [] then path @ ''.'' @ k else k) in
         collect_dict_loop ks a g path
           (case map_of a k of
              None \<Rightarrow>
                (case map_of g k of
                   None \<Rightarrow> diffs'
                 | Some gv \<Rightarrow> diffs' @ [ValueDiff np ''<missing>'' (py_str gv)])
            | Some av \<Rightarrow>
                (case map_of g k of
                   None \<Rightarrow> diffs' @ [ValueDiff np (py_str av) ''<missing>'']
                 | Some gv \<Rightarrow> collect_diffs av gv np diffs' limit))
           limit))"
| "collect_list_loop [] i path diffs' limit = diffs'"
| "collect_list_loop ((av, gv) # rest) i path diffs' limit =
     (if limit \<le> int (length diffs') then diffs'
      else
        collect_list_loop rest (Suc i) path
          (collect_diffs av gv (path @ ''['' @ digits i @ '']'') diffs' limit)
          limit)"
  by pat_completeness auto
termination
proof (relation "inv_image (less_than <*lex*> less_than)
    (\<lambda>x. case x of
       Inl (agent, gt, path, diffs', limit) \<Rightarrow> (size agent, 0)
     | Inr (Inl (ks, a, g, path, diffs', limit)) \<Rightarrow>
         (size_list (size_prod (\<lambda>_. 0) size) a, Suc (length ks))
     | Inr (Inr (ps, i, path, diffs', limit)) \<Rightarrow>
         (size_list (\<lambda>p. size (fst p)) ps, Suc (length ps)))")
  show "wf (inv_image (less_than <*lex*> less_than)
    (\<lambda>x. case x of
       Inl (agent, gt, path, diffs', limit) \<Rightarrow> (size agent, 0::nat)
     | Inr (Inl (ks, a, g, path, diffs', limit)) \<Rightarrow>
         (size_list (size_prod (\<lambda>_. 0) size) a, Suc (length ks))
     | Inr (Inr (ps, i, path, diffs', limit)) \<Rightarrow>
         (size_list (\<lambda>p. size (fst p)) ps, Suc (length ps))))"
    by (intro wf_inv_image wf_lex_prod wf_less_than)
qed (auto simp: size_zip_fst size_map_of)

declare collect_diffs.simps [simp del]

subsection \<open>Positions in a JSON-like value\<close>

text \<open>
  To speak about two structures that differ in one leaf: a position is the list of
  dictionary keys and list indices that leads from the root to a value; a leaf is a value
  that is neither a list nor a dictionary.
\<close>

datatype step = Key string | Idx nat

fun is_scalar :: "json \<Rightarrow> bool" where
  "is_scalar (JList xs) = False"
| "is_scalar (JDict d) = False"
| "is_scalar _ = True"

text \<open>The value at a position, if the position exists.\<close>

fun get_at :: "json \<Rightarrow> step list \<Rightarrow> json option" where
  "get_at x [] = Some x"
| "get_at (JDict d) (Key k # steps) =
     (case map_of d k of None \<Rightarrow> None | Some v \<Rightarrow> get_at v steps)"
| "get_at (JList xs) (Idx i # steps) = (if i < length xs then get_at (xs ! i) steps else None)"
| "get_at _ _ = None"

text \<open>The structure with the value at a position replaced (unchanged if there is no such
  position).\<close>

fun put_at :: "json \<Rightarrow> step list \<Rightarrow> json \<Rightarrow> json" where
  "put_at x [] v = v"
| "put_at (JDict d) (Key k # steps) v =
     (case map_of d k of
        None \<Rightarrow> JDict d
      | Some old \<Rightarrow> JDict (AList.update k (put_at old steps v) d))"
| "put_at (JList xs) (Idx i # steps) v =
     (if i < length xs then JList (xs[i := put_at (xs ! i) steps v]) else JList xs)"
| "put_at x _ v = x"

text \<open>
  The dot/bracket notation of a position below a path already written: an index is
  appended in brackets, a key is appended after a dot, and without the dot when nothing has
  been written so far.
\<close>

fun extend_path :: "string \<Rightarrow> step list \<Rightarrow> string" where
  "extend_path p [] = p"
| "extend_path p (Key k # steps) = extend_path (if p \<noteq> [] then p @ ''.'' @ k else k) steps"
| "extend_path p (Idx i # steps) = extend_path (p @ ''['' @ digits i @ '']'') steps"

definition dot_bracket_path :: "step list \<Rightarrow> string" where
  "dot_bracket_path steps = extend_path [] steps"

text \<open>The same notation as a plain concatenation: the first component, then every later
  key with its dot and every later index in its brackets.\<close>

fun step_str :: "step \<Rightarrow> string" where
  "step_str (Key k) = ''.'' @ k"
| "step_str (Idx i) = ''['' @ digits i @ '']''"

fun joined_path :: "step list \<Rightarrow> string" where
  "joined_path [] = []"
| "joined_path (Key k # steps) = k @ concat (map step_str steps)"
| "joined_path (Idx i # steps) = ''['' @ digits i @ '']'' @ concat (map step_str steps)"

subsection \<open>Two example structures\<close>

definition example_agent_items :: "(string \<times> json) list" where
  "example_agent_items =
     [(''users'', JDict [(''mia'', JDict [(''tier'', JStr ''gold'')])]),
      (''reservations'',
         JDict [(''4WQ150'', JDict [(''baggages'', JList [JInt 1, JInt 2]),
                                    (''status'', JStr ''active'')])])]"

definition example_gt :: json where
  "example_gt =
     JDict [(''users'', JDict [(''mia'', JDict [(''tier'', JStr ''gold'')])]),
            (''reservations'',
               JDict [(''4WQ150'', JDict [(''baggages'', JList [JInt 1, JInt 3]),
                                          (''status'', JStr ''active'')])])]"

definition example_steps :: "step list" where
  "example_steps = [Key ''reservations'', Key ''4WQ150'', Key ''baggages'', Idx 1]"


definition long_list :: "json list" where
  "long_list = [JInt 5, JInt 7]"

section \<open>The benchmark adapter: replaying the ground truth\<close>

text \<open>
  What a call to the outside raises is either an instance of \<^verbatim>\<open>Exception\<close>, or an
  exception outside that class (\<^verbatim>\<open>KeyboardInterrupt\<close>, \<^verbatim>\<open>SystemExit\<close>, \<^verbatim>\<open>GeneratorExit\<close>,
  or any other direct subclass of \<^verbatim>\<open>BaseException\<close>). Both carry the string that
  \<^verbatim>\<open>str\<close> gives for them. Neither \<^verbatim>\<open>except Exception\<close> nor
  \<^verbatim>\<open>contextlib.suppress(Exception)\<close> stops an exception of the second kind.
\<close>

datatype py_exception =
    PyException (message: string)
  | PyBaseException (message: string)

text \<open>
  An action of a task has a name and keyword arguments. A tool takes the dataset and the
  keyword arguments; it returns a string or raises, and it may change the dataset in place,
  also when it raises. The model of a tool returns the outcome together with the dataset
  after the call. What a tool raises is an exception of its own kind \<open>'e\<close>, all of them
  instances of \<^verbatim>\<open>Exception\<close>, or an exception outside \<^verbatim>\<open>Exception\<close> with its message.
  The tools of an environment, its loader and its task are not part of the adapter: they
  are the fields of \<open>env\<close>. The loader returns a fresh dataset or raises;
  \<open>terminate_tools\<close> is \<open>None\<close> when the environment has no such attribute.
\<close>

datatype 'e raised =
    Raised 'e
  | RaisedBase string

record action =
  name :: string
  kwargs :: "(string \<times> json) list"

type_synonym 'e tool = "json \<Rightarrow> (string \<times> json) list \<Rightarrow> ('e raised + string) \<times> json"

record 'e env =
  data_load_func :: "py_exception + json"
  task_actions :: "action list"
  terminate_tools :: "string list option"
  tools_map :: "string \<Rightarrow> 'e tool option"

text \<open>\<^verbatim>\<open>getattr(env, "terminate_tools", [])\<close>.\<close>

definition get_terminate_tools :: "'e env \<Rightarrow> string list" where
  "get_terminate_tools env = (case terminate_tools env of None \<Rightarrow> [] | Some ts \<Rightarrow> ts)"

text \<open>
  The loop of \<^verbatim>\<open>_simulate_gt_data\<close> over the actions of the task. The two \<^verbatim>\<open>continue\<close>
  statements skip an action. \<^verbatim>\<open>contextlib.suppress(Exception)\<close> drops what the tool
  returns and every instance of \<^verbatim>\<open>Exception\<close> it raises, and the loop goes on with the
  dataset as the tool left it; an exception outside \<^verbatim>\<open>Exception\<close> leaves the loop and the
  function, and no dataset is returned.
\<close>

fun replay :: "'e env \<Rightarrow> json \<Rightarrow> action list \<Rightarrow> py_exception + json" where
  "replay env data [] = Inr data"
| "replay env data (action # rest) =
     (if name action \<in> set (get_terminate_tools env) then replay env data rest
      else
        (case tools_map env (name action) of
           None \<Rightarrow> replay env data rest
         | Some tool_cls \<Rightarrow>
             (case tool_cls data (kwargs action) of
                (Inr s, data1) \<Rightarrow> replay env data1 rest
              | (Inl (Raised e), data1) \<Rightarrow> replay env data1 rest
              | (Inl (RaisedBase msg), data1) \<Rightarrow> Inl (PyBaseException msg))))"

definition simulate_gt_data :: "'e env \<Rightarrow> py_exception + json" where
  "simulate_gt_data env =
     (case data_load_func env of
        Inl e \<Rightarrow> Inl e
      | Inr data \<Rightarrow> replay env data (task_actions env))"

subsection \<open>The replay in the words of the specification\<close>

text \<open>
  The definitions of this subsection read the fields of the environment themselves. An
  action is terminal when the environment has a list of terminal tools and the name of the
  action is in it; it has a tool when the tools map has an entry for its name. An action
  is replayed when it is not terminal and has a tool.
\<close>

definition is_terminal :: "'e env \<Rightarrow> action \<Rightarrow> bool" where
  "is_terminal env a \<longleftrightarrow>
     (case terminate_tools env of None \<Rightarrow> False | Some ts \<Rightarrow> name a \<in> set ts)"

definition has_tool :: "'e env \<Rightarrow> action \<Rightarrow> bool" where
  "has_tool env a \<longleftrightarrow> (case tools_map env (name a) of None \<Rightarrow> False | Some tool_cls \<Rightarrow> True)"

definition replayed :: "'e env \<Rightarrow> action \<Rightarrow> bool" where
  "replayed env a \<longleftrightarrow> \<not> is_terminal env a \<and> has_tool env a"

text \<open>What one replayed action does to the dataset, whether its tool returns or raises.\<close>

definition apply_action :: "'e env \<Rightarrow> json \<Rightarrow> action \<Rightarrow> json" where
  "apply_action env data a =
     (case tools_map env (name a) of
        None \<Rightarrow> data
      | Some tool_cls \<Rightarrow> snd (tool_cls data (kwargs a)))"

text \<open>The replayed actions applied one after the other, in the order of the task.\<close>

definition run_actions :: "'e env \<Rightarrow> json \<Rightarrow> action list \<Rightarrow> json" where
  "run_actions env data acts = foldl (apply_action env) data (filter (replayed env) acts)"

text \<open>No tool of the environment ever raises an exception outside \<^verbatim>\<open>Exception\<close>.\<close>

definition raises_exceptions_only :: "'e env \<Rightarrow> bool" where
  "raises_exceptions_only env \<longleftrightarrow>
     (\<forall>n tool_cls data kw msg.
        tools_map env n = Some tool_cls \<longrightarrow> fst (tool_cls data kw) \<noteq> Inl (RaisedBase msg))"

subsection \<open>An example environment\<close>

text \<open>
  Four tools of an example environment. The first stores its keyword arguments under the
  key \<^verbatim>\<open>note\<close> and returns. The second overwrites the users and then raises a
  \<^verbatim>\<open>KeyError\<close>. The third marks the dataset as transferred and returns; in the example
  environment it is the tool of the terminal action. The fourth empties the dataset and
  then raises \<^verbatim>\<open>SystemExit\<close>.
\<close>

definition example_note_tool :: "exn tool" where
  "example_note_tool data kw = (Inr ''noted'', setitem data ''note'' (JDict kw))"

definition example_failing_tool :: "exn tool" where
  "example_failing_tool data kw =
     (Inl (Raised (KeyError ''user_id'')), setitem data ''users'' JNull)"

definition example_transfer_tool :: "exn tool" where
  "example_transfer_tool data kw =
     (Inr ''Transfer successful'', setitem data ''transferred'' (JBool True))"

definition example_exit_tool :: "exn tool" where
  "example_exit_tool data kw = (Inl (RaisedBase ''SystemExit''), JDict [])"

definition example_tools_map :: "string \<Rightarrow> exn tool option" where
  "example_tools_map n =
     (if n = ''note'' then Some example_note_tool
      else if n = ''update_user'' then Some example_failing_tool
      else if n = ''transfer'' then Some example_transfer_tool
      else None)"

definition example_actions :: "action list" where
  "example_actions =
     [\<lparr>name = ''think'', kwargs = []\<rparr>,
      \<lparr>name = ''note'', kwargs = [(''text'', JStr ''first'')]\<rparr>,
      \<lparr>name = ''update_user'', kwargs = []\<rparr>,
      \<lparr>name = ''transfer'', kwargs = []\<rparr>,
      \<lparr>name = ''note'', kwargs = [(''text'', JStr ''last'')]\<rparr>]"

definition example_env :: "exn env" where
  "example_env =
     \<lparr>data_load_func = Inr example_dataset,
      task_actions = example_actions,
      terminate_tools = Some [''transfer''],
      tools_map = example_tools_map\<rparr>"

text \<open>The same environment with a tool that raises \<^verbatim>\<open>SystemExit\<close> for the third
  action.\<close>

definition exit_env :: "exn env" where
  "exit_env =
     example_env\<lparr>tools_map := (\<lambda>n. if n = ''update_user'' then Some example_exit_tool
                                       else example_tools_map n)\<rparr>"
section \<open>The benchmark adapter: \<^verbatim>\<open>solve\<close>\<close>

subsection \<open>Events, outputs and results\<close>

text \<open>
  An event of the command trace queue, as the adapter reads it with \<^verbatim>\<open>getattr\<close>:
  whether its direction is \<^verbatim>\<open>AGENT_TO_WORKFLOW\<close>, its command name and its response
  text (\<open>None\<close> when the attribute is missing or not a string), its parameters (already a
  plain dictionary, \<open>None\<close> when missing) and its success flag.
\<close>

record trace_event =
  agent_to_workflow :: bool
  command_name :: "string option"
  parameters :: "(string \<times> json) list option"
  response_text :: "string option"
  success :: "bool option"

text \<open>
  An item of the command output queue: an object with a list \<^verbatim>\<open>command_responses\<close>
  (of each response its attribute \<^verbatim>\<open>response\<close>, \<open>None\<close> when it is not a string), a
  plain string, or anything else.
\<close>

datatype command_output =
    CommandResponses "string option list"
  | StrOutput string
  | OtherOutput

text \<open>The answer of \<^verbatim>\<open>env.step\<close>: the observation (\<open>None\<close> when it is not a string) and
  the flag \<^verbatim>\<open>done\<close>.\<close>

record step_response =
  observation :: "string option"
  step_done :: bool

text \<open>The answer of \<^verbatim>\<open>env.calculate_reward\<close>: the reward and the result of
  \<^verbatim>\<open>model_dump()\<close> (\<open>None\<close> when the object has no such method).\<close>

record reward_result =
  rr_reward :: real
  rr_model_dump :: "json option"

record executed_action =
  ea_name :: string
  ea_kwargs :: "(string \<times> json) list"
  ea_response_text :: "string option"
  ea_success :: "bool option"

text \<open>The dictionary \<^verbatim>\<open>info\<close> of a result has one of two shapes: the keys
  \<^verbatim>\<open>task_index\<close>, \<^verbatim>\<open>steps\<close>, \<^verbatim>\<open>executed_actions\<close>, \<^verbatim>\<open>reward_info\<close>, or the key \<^verbatim>\<open>error\<close>.\<close>

datatype info =
    Info (info_task_index: "int option") (info_steps: nat)
      (info_executed_actions: "executed_action list") (info_reward_info: json)
  | ErrorInfo (info_error: string)

record solve_result =
  reward :: real
  messages :: "(string \<times> string) list"
  info :: info

subsection \<open>The workflow process and the environment\<close>

text \<open>
  The adapter talks to the workflow framework and to the benchmark environment, which are
  not part of it. They are a state \<open>'w\<close> and the operations below; each operation returns
  its answer with the next state, or raises. \<open>startup\<close> stands for the statements of
  \<^verbatim>\<open>solve\<close> before the loop (initialisation of the framework, creation of the chat
  session, reset of the environment, start of the workflow) and returns the instruction of
  the task. The two \<open>get_nowait\<close> operations answer \<open>None\<close> when the queue is empty.
  \<open>sleep\<close> is the pause between two iterations, during which the workflow process runs.
\<close>

record ('w, 'e) world_ops =
  startup :: "'w \<Rightarrow> py_exception + (string \<times> 'w)"
  has_direction_enum :: bool
  trace_get_nowait :: "'w \<Rightarrow> py_exception + (trace_event option \<times> 'w)"
  output_get_nowait :: "'w \<Rightarrow> py_exception + (command_output option \<times> 'w)"
  env_step :: "action \<Rightarrow> 'w \<Rightarrow> py_exception + (step_response \<times> 'w)"
  user_message_put :: "string \<Rightarrow> 'w \<Rightarrow> py_exception + 'w"
  sleep :: "'w \<Rightarrow> 'w"
  env_data :: "'w \<Rightarrow> json"
  env_of :: "'w \<Rightarrow> 'e env"
  calculate_reward :: "'w \<Rightarrow> py_exception + (reward_result \<times> 'w)"
  respond_action_name :: string
  respond_action_field_name :: string

subsection \<open>String helpers\<close>

text \<open>\<^verbatim>\<open>str.strip()\<close>: the white space of Python among the code points below 256.\<close>

definition is_space :: "char \<Rightarrow> bool" where
  "is_space c \<longleftrightarrow>
     (let n = (of_char c :: nat)
      in (9 \<le> n \<and> n \<le> 13) \<or> (28 \<le> n \<and> n \<le> 32) \<or> n = 133 \<or> n = 160)"

definition strip :: "string \<Rightarrow> string" where
  "strip s = rev (dropWhile is_space (rev (dropWhile is_space s)))"

subsection \<open>\<^verbatim>\<open>_drain_command_trace\<close>\<close>

text \<open>
  The state of the loop: the counter \<open>processed\<close>, the two lists the method appends to,
  and the state of the outside. The first argument counts the iterations the condition
  \<^verbatim>\<open>processed < max_drain\<close> still allows.
\<close>

fun drain_trace_loop ::
  "('w, 'e) world_ops \<Rightarrow> nat \<Rightarrow> nat \<times> string list \<times> executed_action list \<times> 'w
    \<Rightarrow> py_exception + (nat \<times> string list \<times> executed_action list \<times> 'w)"
where
  "drain_trace_loop ops 0 st = Inr st"
| "drain_trace_loop ops (Suc n) (processed, texts, actions, w) =
     (case trace_get_nowait ops w of
        Inl e \<Rightarrow> Inl e
      | Inr (None, w1) \<Rightarrow> Inr (processed, texts, actions, w1)
      | Inr (Some evt, w1) \<Rightarrow>
          (let is_agent_to_workflow = (if has_direction_enum ops then agent_to_workflow evt else False)
           in if is_agent_to_workflow then
                drain_trace_loop ops n (processed + 1, texts, actions, w1)
              else
                (let cmd_name = command_name evt;
                     params = (case parameters evt of None \<Rightarrow> [] | Some kw \<Rightarrow> kw);
                     texts1 = (case response_text evt of
                                 None \<Rightarrow> texts
                               | Some t \<Rightarrow> if t \<noteq> [] then texts @ [t] else texts)
                 in case cmd_name of
                      None \<Rightarrow> drain_trace_loop ops n (processed + 1, texts1, actions, w1)
                    | Some c \<Rightarrow>
                        if c = [] then drain_trace_loop ops n (processed + 1, texts1, actions, w1)
                        else
                          (case env_step ops \<lparr>name = c, kwargs = params\<rparr> w1 of
                             Inl e \<Rightarrow> Inl e
                           | Inr (res, w2) \<Rightarrow>
                               drain_trace_loop ops n
                                 (processed + 1, texts1,
                                  actions @ [\<lparr>ea_name = c, ea_kwargs = params,
                                              ea_response_text = response_text evt,
                                              ea_success = success evt\<rparr>],
                                  w2)))))"

definition drain_command_trace ::
  "('w, 'e) world_ops \<Rightarrow> nat \<Rightarrow> string list \<Rightarrow> executed_action list \<Rightarrow> 'w
    \<Rightarrow> py_exception + (nat \<times> string list \<times> executed_action list \<times> 'w)"
where
  "drain_command_trace ops max_drain texts actions w =
     drain_trace_loop ops max_drain (0, texts, actions, w)"

subsection \<open>\<^verbatim>\<open>_drain_agent_outputs_and_respond\<close>\<close>

text \<open>The texts of one output, stripped, the empty ones left out.\<close>

definition agent_texts_of :: "command_output \<Rightarrow> string list" where
  "agent_texts_of out =
     (case out of
        CommandResponses crs \<Rightarrow>
          concat (map (\<lambda>txt. case txt of
                               None \<Rightarrow> []
                             | Some t \<Rightarrow> if strip t \<noteq> [] then [strip t] else []) crs)
      | StrOutput s \<Rightarrow> if strip s \<noteq> [] then [strip s] else []
      | OtherOutput \<Rightarrow> [])"

fun drain_outputs_loop ::
  "('w, 'e) world_ops \<Rightarrow> nat \<Rightarrow> nat \<times> string list \<times> 'w
    \<Rightarrow> py_exception + ((nat \<times> bool) \<times> string list \<times> 'w)"
where
  "drain_outputs_loop ops 0 (processed, texts, w) = Inr ((processed, False), texts, w)"
| "drain_outputs_loop ops (Suc n) (processed, texts, w) =
     (case output_get_nowait ops w of
        Inl e \<Rightarrow> Inl e
      | Inr (None, w1) \<Rightarrow> Inr ((processed, False), texts, w1)
      | Inr (Some out, w1) \<Rightarrow>
          (let agent_texts = agent_texts_of out
           in if agent_texts = [] then drain_outputs_loop ops n (processed + 1, texts, w1)
              else
                (let agent_text = join [CHR 0x0A] agent_texts;
                     texts1 = texts @ [agent_text]
                 in case env_step ops
                          \<lparr>name = respond_action_name ops,
                           kwargs = [(respond_action_field_name ops, JStr agent_text)]\<rparr> w1 of
                      Inl e \<Rightarrow> Inl e
                    | Inr (res, w2) \<Rightarrow>
                        (case (case observation res of
                                 None \<Rightarrow> Inr (texts1, w2)
                               | Some user_reply \<Rightarrow>
                                   if user_reply = [] then Inr (texts1, w2)
                                   else (case user_message_put ops user_reply w2 of
                                           Inl e \<Rightarrow> Inl e
                                         | Inr w3 \<Rightarrow> Inr (texts1 @ [user_reply], w3))) of
                           Inl e \<Rightarrow> Inl e
                         | Inr (texts2, w4) \<Rightarrow>
                             if step_done res then Inr ((processed + 1, True), texts2, w4)
                             else drain_outputs_loop ops n (processed + 1, texts2, w4)))))"

definition drain_agent_outputs_and_respond ::
  "('w, 'e) world_ops \<Rightarrow> nat \<Rightarrow> string list \<Rightarrow> 'w
    \<Rightarrow> py_exception + ((nat \<times> bool) \<times> string list \<times> 'w)"
where
  "drain_agent_outputs_and_respond ops max_drain texts w =
     drain_outputs_loop ops max_drain (0, texts, w)"

subsection \<open>The interaction loop of \<^verbatim>\<open>solve\<close>\<close>

text \<open>
  The local variables of \<^verbatim>\<open>solve\<close> that the loop changes, the state of the outside, and
  a counter of the loop bodies entered, which the source does not have; it is there to
  state how many iterations a run takes. \<open>done_flag\<close> is the variable \<^verbatim>\<open>done\<close>.
\<close>

record 'w loop_state =
  actions_executed :: "executed_action list"
  aggregated_response_texts :: "string list"
  steps_taken :: nat
  done_flag :: bool
  idle_cycles :: nat
  iterations :: nat
  world :: 'w

definition idle_limit :: nat where
  "idle_limit = 150"

definition initial_loop_state :: "'w \<Rightarrow> 'w loop_state" where
  "initial_loop_state w =
     \<lparr>actions_executed = [], aggregated_response_texts = [], steps_taken = 0, done_flag = False,
      idle_cycles = 0, iterations = 0, world = w\<rparr>"

text \<open>The first argument is the number of values \<^verbatim>\<open>range(max_num_steps)\<close> has left.\<close>

fun interaction_loop ::
  "('w, 'e) world_ops \<Rightarrow> nat \<Rightarrow> 'w loop_state \<Rightarrow> py_exception + 'w loop_state"
where
  "interaction_loop ops 0 st = Inr st"
| "interaction_loop ops (Suc n) st =
     (case drain_command_trace ops 200 (aggregated_response_texts st) (actions_executed st)
             (world st) of
        Inl e \<Rightarrow> Inl e
      | Inr (processed_trace, texts1, actions1, w1) \<Rightarrow>
          (case drain_agent_outputs_and_respond ops 200 texts1 w1 of
             Inl e \<Rightarrow> Inl e
           | Inr ((processed_out, out_done), texts2, w2) \<Rightarrow>
               (let progressed = processed_trace + processed_out;
                    done1 = (if out_done then True else done_flag st);
                    idle1 = (if progressed = 0 then idle_cycles st + 1 else 0);
                    st1 = \<lparr>actions_executed = actions1, aggregated_response_texts = texts2,
                           steps_taken = steps_taken st + progressed, done_flag = done1,
                           idle_cycles = idle1, iterations = iterations st + 1, world = w2\<rparr>
                in if done1 \<or> idle_limit \<le> idle1 then Inr st1
                   else interaction_loop ops n (st1\<lparr>world := sleep ops w2\<rparr>))))"

subsection \<open>\<^verbatim>\<open>solve\<close>\<close>

text \<open>
  The statements after the loop. The copy of \<^verbatim>\<open>env.data\<close>, the diffs and the two
  serializations are computed and not used in the result; the copy of a JSON-like value is
  the value. The reward is the one the environment computes.
\<close>

definition finish ::
  "('w, 'e) world_ops \<Rightarrow> string \<Rightarrow> int option \<Rightarrow> string \<Rightarrow> 'w loop_state
    \<Rightarrow> py_exception + solve_result"
where
  "finish ops wiki task_idx initial_observation st =
     (let agent_final_data = env_data ops (world st)
      in case simulate_gt_data (env_of ops (world st)) of
           Inl e \<Rightarrow> Inl e
         | Inr gt_data_sim \<Rightarrow>
             (let diffs' = collect_diffs agent_final_data gt_data_sim [] [] 50
              in case calculate_reward ops (world st) of
                   Inl e \<Rightarrow> Inl e
                 | Inr (reward_res, w1) \<Rightarrow>
                     (let combined_response =
                            strip (join [CHR 0x0A] (aggregated_response_texts st))
                      in Inr \<lparr>reward = rr_reward reward_res,
                              messages =
                                [(''system'', wiki), (''user'', initial_observation)]
                                @ (if combined_response \<noteq> [] then [(''assistant'', combined_response)]
                                   else []),
                              info =
                                Info task_idx (steps_taken st) (actions_executed st)
                                  (case rr_model_dump reward_res of
                                     None \<Rightarrow> JDict []
                                   | Some dump \<Rightarrow> dump)\<rparr>)))"

text \<open>The body of the \<^verbatim>\<open>try\<close> statement: a result, or the exception that leaves it.\<close>

definition solve_body ::
  "('w, 'e) world_ops \<Rightarrow> string \<Rightarrow> int option \<Rightarrow> int \<Rightarrow> 'w \<Rightarrow> py_exception + solve_result"
where
  "solve_body ops wiki task_idx max_num_steps w =
     (case startup ops w of
        Inl e \<Rightarrow> Inl e
      | Inr (initial_observation, w1) \<Rightarrow>
          (case interaction_loop ops (nat max_num_steps) (initial_loop_state w1) of
             Inl e \<Rightarrow> Inl e
           | Inr st \<Rightarrow> finish ops wiki task_idx initial_observation st))"

text \<open>
  \<^verbatim>\<open>solve\<close>: the \<^verbatim>\<open>except Exception\<close> clause turns an instance of \<^verbatim>\<open>Exception\<close> that
  leaves the body into the fallback result, whose \<^verbatim>\<open>info\<close> holds \<^verbatim>\<open>str(e)\<close>. An
  exception outside \<^verbatim>\<open>Exception\<close> is not caught: it leaves \<^verbatim>\<open>solve\<close>, and there is no
  result.
\<close>

definition solve ::
  "('w, 'e) world_ops \<Rightarrow> string \<Rightarrow> int option \<Rightarrow> int \<Rightarrow> 'w \<Rightarrow> py_exception + solve_result"
where
  "solve ops wiki task_idx max_num_steps w =
     (case solve_body ops wiki task_idx max_num_steps w of
        Inr result \<Rightarrow> Inr result
      | Inl (PyException msg) \<Rightarrow>
          Inr \<lparr>reward = 0, messages = [(''system'', wiki)], info = ErrorInfo msg\<rparr>
      | Inl (PyBaseException msg) \<Rightarrow> Inl (PyBaseException msg))"
subsection \<open>Queues that never yield, and example processes\<close>

text \<open>Both queues are empty whenever they are polled.\<close>

definition never_yields :: "('w, 'e) world_ops \<Rightarrow> bool" where
  "never_yields ops \<longleftrightarrow>
     (\<forall>w. \<exists>w1. trace_get_nowait ops w = Inr (None, w1))
     \<and> (\<forall>w. \<exists>w1. output_get_nowait ops w = Inr (None, w1))"

text \<open>
  A silent workflow process on a task whose ground truth has no action: the dataset of the
  environment stays the loaded one, and the environment scores the run with the reward 1.
\<close>

definition silent_env :: "exn env" where
  "silent_env =
     \<lparr>data_load_func = Inr example_dataset, task_actions = [], terminate_tools = None,
      tools_map = example_tools_map\<rparr>"

definition silent_ops :: "(unit, exn) world_ops" where
  "silent_ops =
     \<lparr>startup = (\<lambda>w. Inr (''What is the status of reservation 4WQ150?'', w)),
      has_direction_enum = True,
      trace_get_nowait = (\<lambda>w. Inr (None, w)),
      output_get_nowait = (\<lambda>w. Inr (None, w)),
      env_step = (\<lambda>a w. Inr (\<lparr>observation = None, step_done = False\<rparr>, w)),
      user_message_put = (\<lambda>s w. Inr w),
      sleep = (\<lambda>w. w),
      env_data = (\<lambda>w. example_dataset),
      env_of = (\<lambda>w. silent_env),
      calculate_reward = (\<lambda>w. Inr (\<lparr>rr_reward = 1, rr_model_dump = None\<rparr>, w)),
      respond_action_name = ''respond'',
      respond_action_field_name = ''content''\<rparr>"

text \<open>A process whose first traced command makes \<^verbatim>\<open>env.step\<close> raise.\<close>

definition cancel_event :: trace_event where
  "cancel_event =
     \<lparr>agent_to_workflow = False, command_name = Some ''cancel_reservation'',
      parameters = Some [(''reservation_id'', JStr ''4WQ150'')],
      response_text = Some ''cancelled'', success = Some True\<rparr>"

definition raising_ops :: "(unit, exn) world_ops" where
  "raising_ops =
     silent_ops\<lparr>trace_get_nowait := (\<lambda>w. Inr (Some cancel_event, w)),
                env_step := (\<lambda>a w. Inl (PyException ''environment is closed''))\<rparr>"


text \<open>
  A process whose command trace queue holds the events of the state, in the order they
  are read; nothing else happens, and no operation raises.
\<close>

definition scripted_ops :: "(trace_event list, exn) world_ops" where
  "scripted_ops =
     \<lparr>startup = (\<lambda>w. Inr (''What is the status of reservation 4WQ150?'', w)),
      has_direction_enum = True,
      trace_get_nowait = (\<lambda>w. case w of [] \<Rightarrow> Inr (None, []) | evt # rest \<Rightarrow> Inr (Some evt, rest)),
      output_get_nowait = (\<lambda>w. Inr (None, w)),
      env_step = (\<lambda>a w. Inr (\<lparr>observation = None, step_done = False\<rparr>, w)),
      user_message_put = (\<lambda>s w. Inr w),
      sleep = (\<lambda>w. w),
      env_data = (\<lambda>w. example_dataset),
      env_of = (\<lambda>w. silent_env),
      calculate_reward = (\<lambda>w. Inr (\<lparr>rr_reward = 1, rr_model_dump = None\<rparr>, w)),
      respond_action_name = ''respond'',
      respond_action_field_name = ''content''\<rparr>"

text \<open>What the adapter records for the event \<open>cancel_event\<close>, and the state in which the
  loop ends when the queue holds this one event and \<^verbatim>\<open>max_num_steps\<close> is 1: five calls
  have been made (the start-up, the poll that yields the event, \<^verbatim>\<open>env.step\<close>, the poll
  of the empty trace queue and the poll of the output queue).\<close>

definition cancel_action :: executed_action where
  "cancel_action =
     \<lparr>ea_name = ''cancel_reservation'',
      ea_kwargs = [(''reservation_id'', JStr ''4WQ150'')],
      ea_response_text = Some ''cancelled'', ea_success = Some True\<rparr>"

definition scripted_end_state :: "(nat \<times> trace_event list) loop_state" where
  "scripted_end_state =
     \<lparr>actions_executed = [cancel_action], aggregated_response_texts = [''cancelled''],
      steps_taken = 1, done_flag = False, idle_cycles = 0, iterations = 1, world = (5, [])\<rparr>"

subsection \<open>Raising at a chosen call\<close>

text \<open>
  The calls that \<^verbatim>\<open>solve\<close> makes to the outside are numbered from 0 in the order they are
  made: the start-up, every poll of a queue, every \<^verbatim>\<open>env.step\<close>, every \<^verbatim>\<open>put\<close> on the user
  message queue, the load of the dataset at the start of the replay, and the computation
  of the reward. \<open>inject fault ops\<close> are the operations \<open>ops\<close> on a state that also holds
  the number of calls made so far. With the fault \<open>Some (k, e)\<close> the call number \<open>k\<close>
  raises \<open>e\<close> instead of being carried out; with \<open>None\<close> the calls are only counted. The
  load and the computation of the reward are made in the state the loop ends in: the load
  has the number held in that state, the computation of the reward the next one.
\<close>

definition fault_at :: "(nat \<times> py_exception) option \<Rightarrow> nat \<Rightarrow> py_exception option" where
  "fault_at fault c =
     (case fault of None \<Rightarrow> None | Some (k, e) \<Rightarrow> if c = k then Some e else None)"

definition numbered ::
  "(nat \<times> py_exception) option \<Rightarrow> nat \<Rightarrow> py_exception + ('a \<times> 'w)
    \<Rightarrow> py_exception + ('a \<times> (nat \<times> 'w))"
where
  "numbered fault c answer =
     (case fault_at fault c of
        Some e \<Rightarrow> Inl e
      | None \<Rightarrow> (case answer of Inl x \<Rightarrow> Inl x | Inr (a, w1) \<Rightarrow> Inr (a, (Suc c, w1))))"

definition inject ::
  "(nat \<times> py_exception) option \<Rightarrow> ('w, 'e) world_ops \<Rightarrow> (nat \<times> 'w, 'e) world_ops"
where
  "inject fault ops =
     \<lparr>startup = (\<lambda>(c, w). numbered fault c (startup ops w)),
      has_direction_enum = has_direction_enum ops,
      trace_get_nowait = (\<lambda>(c, w). numbered fault c (trace_get_nowait ops w)),
      output_get_nowait = (\<lambda>(c, w). numbered fault c (output_get_nowait ops w)),
      env_step = (\<lambda>a (c, w). numbered fault c (env_step ops a w)),
      user_message_put =
        (\<lambda>s (c, w). case fault_at fault c of
                       Some e \<Rightarrow> Inl e
                     | None \<Rightarrow> (case user_message_put ops s w of
                                  Inl x \<Rightarrow> Inl x
                                | Inr w1 \<Rightarrow> Inr (Suc c, w1))),
      sleep = (\<lambda>(c, w). (c, sleep ops w)),
      env_data = (\<lambda>(c, w). env_data ops w),
      env_of =
        (\<lambda>(c, w). (env_of ops w)
                     \<lparr>data_load_func :=
                        (case fault_at fault c of
                           Some e \<Rightarrow> Inl e
                         | None \<Rightarrow> data_load_func (env_of ops w))\<rparr>),
      calculate_reward = (\<lambda>(c, w). numbered fault (Suc c) (calculate_reward ops w)),
      respond_action_name = respond_action_name ops,
      respond_action_field_name = respond_action_field_name ops\<rparr>"

text \<open>The state of the loop without the number of calls.\<close>

definition unnumbered :: "(nat \<times> 'w) loop_state \<Rightarrow> 'w loop_state" where
  "unnumbered st =
     \<lparr>actions_executed = actions_executed st,
      aggregated_response_texts = aggregated_response_texts st,
      steps_taken = steps_taken st, done_flag = done_flag st, idle_cycles = idle_cycles st,
      iterations = iterations st, world = snd (world st)\<rparr>"
section \<open>Properties of \<^verbatim>\<open>CancelReservation.invoke\<close>\<close>

subsection \<open>Auxiliary facts\<close>

lemmas example_defs =
  example_dataset_def example_reservations_def example_reservation_def
  other_reservation_def example_history_def

lemma example_hyps:
  "subscript example_dataset ''reservations'' = Inr (JDict example_reservations)"
  "map_of example_reservations ''4WQ150'' = Some example_reservation"
  "subscript example_reservation ''payment_history'' = Inr (JList example_history)"
  "list_all is_payment example_history"
  by (simp_all add: example_defs is_payment_def payment_id_of_def amount_of_def)

lemma subscript_Inr_dict: "subscript x k = Inr v \<Longrightarrow> \<exists>d. x = JDict d \<and> map_of d k = Some v"
  by (cases x) (auto split: option.splits)

lemma subscript_setitem_same:
  "subscript data k = Inr old \<Longrightarrow> subscript (setitem data k v) k = Inr v"
  by (cases data) (simp_all add: update_conv')

lemma subscript_setitem_other:
  "k' \<noteq> k \<Longrightarrow> subscript (setitem data k v) k' = subscript data k'"
  by (cases data) (simp_all add: update_conv')

lemma setitem_twice: "setitem (setitem data k v) k v = setitem data k v"
  by (cases data) simp_all

lemma refund_payment: "is_payment p \<Longrightarrow> refund p = Inr (refund_entry p)"
  by (auto simp: is_payment_def refund_def refund_entry_def payment_id_of_def amount_of_def
      split: sum.splits json.splits)

lemma refunds_payments: "list_all is_payment ph \<Longrightarrow> refunds ph = Inr (map refund_entry ph)"
  by (induction ph) (simp_all add: refund_payment)

lemma refund_entry_eq:
  "payment_id_of p = Some pid \<Longrightarrow> amount_of p = Some a \<Longrightarrow>
   refund_entry p = JDict [(''payment_id'', pid), (''amount'', JInt (- a))]"
  by (simp add: refund_entry_def)

lemma payment_id_of_entry:
  "payment_id_of (JDict [(''payment_id'', pid), (''amount'', v)]) = Some pid"
  by (simp add: payment_id_of_def)

lemma amount_of_entry:
  "amount_of (JDict [(''payment_id'', pid), (''amount'', JInt a)]) = Some a"
  by (simp add: amount_of_def)

lemma is_payment_refund_entry: "is_payment p \<Longrightarrow> is_payment (refund_entry p)"
  by (auto simp: is_payment_def refund_entry_eq payment_id_of_entry amount_of_entry)

lemma amount_of_refund_entry:
  "amount_of p = Some a \<Longrightarrow> payment_id_of p = Some pid \<Longrightarrow> amount_of (refund_entry p) = Some (- a)"
  by (simp add: refund_entry_eq amount_of_entry)

lemma total_amount_append:
  "total_amount (xs @ ys) =
     (case total_amount xs of
        None \<Rightarrow> None
      | Some a \<Rightarrow> (case total_amount ys of None \<Rightarrow> None | Some b \<Rightarrow> Some (a + b)))"
  by (induction xs) (auto split: option.splits)

lemma total_amount_payments:
  "list_all is_payment ph \<Longrightarrow>
   \<exists>t. total_amount ph = Some t \<and> total_amount (map refund_entry ph) = Some (- t)"
  by (induction ph) (auto simp: is_payment_def amount_of_refund_entry split: option.splits)

lemma total_amount_cancelled:
  "list_all is_payment ph \<Longrightarrow> total_amount (ph @ map refund_entry ph) = Some 0"
  using total_amount_payments [of ph] by (auto simp: total_amount_append)

lemma list_all_cancelled:
  "list_all is_payment ph \<Longrightarrow> list_all is_payment (ph @ map refund_entry ph)"
  by (induction ph) (simp_all add: is_payment_refund_entry list_all_iff)

lemma refund_entry_relates:
  "list_all is_payment ph \<Longrightarrow>
   list_all2 (\<lambda>p q. payment_id_of q = payment_id_of p
                  \<and> amount_of q = map_option uminus (amount_of p))
     ph (map refund_entry ph)"
proof (induction ph)
  case Nil
  then show ?case by simp
next
  case (Cons p ph)
  from Cons.prems obtain pid a where "payment_id_of p = Some pid" "amount_of p = Some a"
    by (auto simp: is_payment_def)
  with Cons show ?case
    by (simp add: refund_entry_eq payment_id_of_entry amount_of_entry)
qed

lemma map_of_cancelled_history:
  "map_of (cancelled r ph) ''payment_history'' = Some (JList (ph @ map refund_entry ph))"
  by (simp add: cancelled_def update_conv')

lemma map_of_cancelled_status:
  "map_of (cancelled r ph) ''status'' = Some (JStr ''cancelled'')"
  by (simp add: cancelled_def update_conv')

lemma cancelled_empty_twice: "cancelled (cancelled r []) [] = cancelled r []"
  unfolding cancelled_def by (induction r) auto

lemma reservation_of_after:
  assumes "subscript data ''reservations'' = Inr (JDict rs)"
  shows "reservation_of (setitem data ''reservations'' (JDict (AList.update rid v rs))) rid = Some v"
  using assms by (simp add: reservation_of_def subscript_setitem_same update_conv')

text \<open>The call on a reservation of the data model, in closed form.\<close>

lemma invoke_existing:
  assumes "subscript data ''reservations'' = Inr (JDict rs)"
    and "map_of rs rid = Some (JDict r)"
    and "map_of r ''payment_history'' = Some (JList ph)"
    and "list_all is_payment ph"
  shows "invoke data rid =
           (Inr (json_dumps (JDict (cancelled r ph))),
            setitem data ''reservations'' (JDict (AList.update rid (JDict (cancelled r ph)) rs)))"
proof -
  from assms(2) have "rid \<in> set (map fst rs)"
    by (metis map_of_eq_None_iff option.distinct(1) set_map)
  then show ?thesis
    using assms by (simp add: invoke_def refunds_payments cancelled_def)
qed

text \<open>Whatever the dataset, the call either leaves it as it is or replaces the payment
  history and the status of the one reservation.\<close>

lemma invoke_changes:
  "snd (invoke data rid) = data \<or>
   (\<exists>reservations reservation h.
      subscript data ''reservations'' = Inr reservations \<and>
      subscript reservations rid = Inr reservation \<and>
      snd (invoke data rid) =
        setitem data ''reservations''
          (setitem reservations rid
             (setitem (setitem reservation ''payment_history'' h) ''status'' (JStr ''cancelled''))))"
  by (auto simp: invoke_def Let_def split: sum.splits)

text \<open>The end-to-end scenarios of the specification, evaluated.\<close>

lemma invoke_example_reservation:
  "reservation_of (snd (invoke example_dataset ''4WQ150'')) ''4WQ150'' =
     Some (JDict [(''reservation_id'', JStr ''4WQ150''),
            (''payment_history'',
               JList [JDict [(''payment_id'', JStr ''credit_card_1''), (''amount'', JInt 100)],
                      JDict [(''payment_id'', JStr ''credit_card_1''), (''amount'', JInt (- 100))]]),
            (''status'', JStr ''cancelled'')])"
  by (simp add: example_defs invoke_def refund_def reservation_of_def)

lemma invoke_example_missing:
  "invoke example_dataset ''ZZZZZZ'' = (Inr ''Error: reservation not found'', example_dataset)"
  by (simp add: example_defs invoke_def)

subsection \<open>Cancelling an existing reservation\<close>

text \<open>
  Claim C1. Take a dataset of the data model: its reservations form a dictionary, and the
  reservation stored under \<open>rid\<close> has a payment history \<open>ph\<close>, a list of payment entries.
  Then \<^verbatim>\<open>CancelReservation.invoke\<close> returns the JSON serialization of the updated
  reservation \<open>r'\<close>, which is the reservation stored under \<open>rid\<close> after the call. Its payment
  history is \<open>ph\<close> followed by one appended entry per original payment, in the same order,
  with the same payment id and the negated amount; so it has twice the length of \<open>ph\<close>, all
  its amounts sum to zero, and the status of \<open>r'\<close> is \<^verbatim>\<open>cancelled\<close>.
\<close>

theorem invoke_cancels:
  assumes "subscript data ''reservations'' = Inr (JDict rs)"
    and "map_of rs rid = Some r"
    and "subscript r ''payment_history'' = Inr (JList ph)"
    and "list_all is_payment ph"
  shows "\<exists>r'. fst (invoke data rid) = Inr (json_dumps r')
            \<and> reservation_of (snd (invoke data rid)) rid = Some r'
            \<and> subscript r' ''payment_history'' = Inr (JList (ph @ map refund_entry ph))
            \<and> length (ph @ map refund_entry ph) = 2 * length ph
            \<and> list_all2 (\<lambda>p q. payment_id_of q = payment_id_of p
                               \<and> amount_of q = map_option uminus (amount_of p))
                  ph (map refund_entry ph)
            \<and> total_amount (ph @ map refund_entry ph) = Some 0
            \<and> subscript r' ''status'' = Inr (JStr ''cancelled'')"
proof -
  from assms(3) obtain fields where r: "r = JDict fields"
    and ph: "map_of fields ''payment_history'' = Some (JList ph)"
    by (cases r) (auto split: option.splits)
  have inv: "invoke data rid =
      (Inr (json_dumps (JDict (cancelled fields ph))),
       setitem data ''reservations'' (JDict (AList.update rid (JDict (cancelled fields ph)) rs)))"
    using assms(1) assms(2) ph assms(4) unfolding r by (rule invoke_existing)
  show ?thesis
  proof (intro exI [of _ "JDict (cancelled fields ph)"] conjI)
    show "fst (invoke data rid) = Inr (json_dumps (JDict (cancelled fields ph)))"
      by (simp add: inv)
    show "reservation_of (snd (invoke data rid)) rid = Some (JDict (cancelled fields ph))"
      by (simp add: inv reservation_of_after [OF assms(1)])
    show "subscript (JDict (cancelled fields ph)) ''payment_history''
            = Inr (JList (ph @ map refund_entry ph))"
      by (simp add: map_of_cancelled_history)
    show "length (ph @ map refund_entry ph) = 2 * length ph"
      by simp
    show "list_all2 (\<lambda>p q. payment_id_of q = payment_id_of p
                               \<and> amount_of q = map_option uminus (amount_of p))
                  ph (map refund_entry ph)"
      using assms(4) by (rule refund_entry_relates)
    show "total_amount (ph @ map refund_entry ph) = Some 0"
      using assms(4) by (rule total_amount_cancelled)
    show "subscript (JDict (cancelled fields ph)) ''status'' = Inr (JStr ''cancelled'')"
      by (simp add: map_of_cancelled_status)
  qed
qed

theorem invoke_cancels_witness:
  "subscript example_dataset ''reservations'' = Inr (JDict example_reservations)
   \<and> map_of example_reservations ''4WQ150'' = Some example_reservation
   \<and> subscript example_reservation ''payment_history'' = Inr (JList example_history)
   \<and> list_all is_payment example_history
   \<and> (\<exists>r'. fst (invoke example_dataset ''4WQ150'') = Inr (json_dumps r')
            \<and> reservation_of (snd (invoke example_dataset ''4WQ150'')) ''4WQ150'' = Some r'
            \<and> subscript r' ''payment_history''
                = Inr (JList (example_history @ map refund_entry example_history))
            \<and> length (example_history @ map refund_entry example_history)
                = 2 * length example_history
            \<and> list_all2 (\<lambda>p q. payment_id_of q = payment_id_of p
                               \<and> amount_of q = map_option uminus (amount_of p))
                  example_history (map refund_entry example_history)
            \<and> total_amount (example_history @ map refund_entry example_history) = Some 0
            \<and> subscript r' ''status'' = Inr (JStr ''cancelled''))"
  by (intro conjI example_hyps invoke_cancels [OF example_hyps])

subsection \<open>Cancelling a reservation that does not exist\<close>

text \<open>
  Claim C2. When \<^verbatim>\<open>data["reservations"]\<close> exists and the test
  \<^verbatim>\<open>reservation_id not in reservations\<close> holds, \<^verbatim>\<open>CancelReservation.invoke\<close> returns
  exactly the string \<^verbatim>\<open>Error: reservation not found\<close>, and the dataset after the call is
  the dataset before it.
\<close>

theorem invoke_not_found:
  assumes "subscript data ''reservations'' = Inr reservations"
    and "contains reservations reservation_id = Inr False"
  shows "invoke data reservation_id = (Inr ''Error: reservation not found'', data)"
  using assms by (simp add: invoke_def)

theorem invoke_not_found_witness:
  "subscript example_dataset ''reservations'' = Inr (JDict example_reservations)
   \<and> contains (JDict example_reservations) ''ZZZZZZ'' = Inr False
   \<and> invoke example_dataset ''ZZZZZZ'' = (Inr ''Error: reservation not found'', example_dataset)"
proof -
  have absent: "contains (JDict example_reservations) ''ZZZZZZ'' = Inr False"
    by (simp add: example_reservations_def)
  show ?thesis
    by (intro conjI example_hyps(1) absent invoke_not_found [OF example_hyps(1) absent])
qed

subsection \<open>Cancelling twice\<close>

text \<open>
  Claim C4, as stated: a second call with the same arguments leaves the dataset as the
  first call left it. It fails on the dataset of the end-to-end scenario: the second call
  appends a refund for each of the two entries present after the first call.
\<close>

theorem invoke_twice_counterexample:
  "snd (invoke (snd (invoke example_dataset ''4WQ150'')) ''4WQ150'')
     \<noteq> snd (invoke example_dataset ''4WQ150'')"
  by (simp add: example_defs invoke_def refund_def)

text \<open>
  Claim C4, amended. On a dataset of the data model and an existing reservation id with
  payment history \<open>ph\<close>, the dataset after two calls equals the dataset after one call
  exactly when \<open>ph\<close> is empty. In general the second call appends one negated entry for each
  entry present after the first call, so the payment history has four times the length of
  \<open>ph\<close>; the status stays \<^verbatim>\<open>cancelled\<close>.
\<close>

theorem invoke_twice:
  assumes "subscript data ''reservations'' = Inr (JDict rs)"
    and "map_of rs rid = Some r"
    and "subscript r ''payment_history'' = Inr (JList ph)"
    and "list_all is_payment ph"
  shows "(snd (invoke (snd (invoke data rid)) rid) = snd (invoke data rid) \<longleftrightarrow> ph = [])
       \<and> (\<exists>r''. reservation_of (snd (invoke (snd (invoke data rid)) rid)) rid = Some r''
             \<and> subscript r'' ''payment_history''
                 = Inr (JList ((ph @ map refund_entry ph) @ map refund_entry (ph @ map refund_entry ph)))
             \<and> length ((ph @ map refund_entry ph) @ map refund_entry (ph @ map refund_entry ph))
                 = 4 * length ph
             \<and> subscript r'' ''status'' = Inr (JStr ''cancelled''))"
proof -
  from assms(3) obtain fields where r: "r = JDict fields"
    and ph: "map_of fields ''payment_history'' = Some (JList ph)"
    by (cases r) (auto split: option.splits)
  define ph1 where "ph1 = ph @ map refund_entry ph"
  define r1 where "r1 = cancelled fields ph"
  define rs1 where "rs1 = AList.update rid (JDict r1) rs"
  define d1 where "d1 = setitem data ''reservations'' (JDict rs1)"
  define r2 where "r2 = cancelled r1 ph1"
  define rs2 where "rs2 = AList.update rid (JDict r2) rs1"
  define d2 where "d2 = setitem d1 ''reservations'' (JDict rs2)"
  have once: "invoke data rid = (Inr (json_dumps (JDict r1)), d1)"
    unfolding d1_def rs1_def r1_def
    using assms(1) assms(2) ph assms(4) unfolding r by (rule invoke_existing)
  have d1: "subscript d1 ''reservations'' = Inr (JDict rs1)"
    unfolding d1_def using assms(1) by (rule subscript_setitem_same)
  have rs1: "map_of rs1 rid = Some (JDict r1)"
    by (simp add: rs1_def update_conv')
  have r1ph: "map_of r1 ''payment_history'' = Some (JList ph1)"
    unfolding r1_def ph1_def by (rule map_of_cancelled_history)
  have wf1: "list_all is_payment ph1"
    unfolding ph1_def using assms(4) by (rule list_all_cancelled)
  have twice: "invoke d1 rid = (Inr (json_dumps (JDict r2)), d2)"
    unfolding d2_def rs2_def r2_def
    using d1 rs1 r1ph wf1 by (rule invoke_existing)
  have res2: "reservation_of d2 rid = Some (JDict r2)"
    unfolding d2_def rs2_def by (rule reservation_of_after [OF d1])
  have res1: "reservation_of d1 rid = Some (JDict r1)"
    unfolding d1_def rs1_def by (rule reservation_of_after [OF assms(1)])
  have r2ph: "map_of r2 ''payment_history'' = Some (JList (ph1 @ map refund_entry ph1))"
    unfolding r2_def by (rule map_of_cancelled_history)
  have iff: "d2 = d1 \<longleftrightarrow> ph = []"
  proof
    assume "d2 = d1"
    with res1 res2 have "r2 = r1" by simp
    with r2ph r1ph have "ph1 @ map refund_entry ph1 = ph1" by simp
    then show "ph = []" by (simp add: ph1_def)
  next
    assume e: "ph = []"
    then have "ph1 = []" by (simp add: ph1_def)
    then have "r2 = r1" unfolding r2_def r1_def e by (simp add: cancelled_empty_twice)
    then have "rs2 = rs1" by (simp add: rs2_def rs1_def)
    then show "d2 = d1" by (simp add: d2_def d1_def setitem_twice)
  qed
  have a: "snd (invoke d1 rid) = d2"
    by (simp add: twice)
  have b: "snd (invoke data rid) = d1"
    by (simp add: once)
  have c: "subscript (JDict r2) ''payment_history'' = Inr (JList (ph1 @ map refund_entry ph1))"
    by (simp add: r2ph)
  have d: "subscript (JDict r2) ''status'' = Inr (JStr ''cancelled'')"
    by (simp add: r2_def map_of_cancelled_status)
  have e: "length (ph1 @ map refund_entry ph1) = 4 * length ph"
    by (simp add: ph1_def)
  have "(d2 = d1 \<longleftrightarrow> ph = [])
       \<and> (\<exists>r''. reservation_of d2 rid = Some r''
             \<and> subscript r'' ''payment_history''
                 = Inr (JList ((ph @ map refund_entry ph) @ map refund_entry (ph @ map refund_entry ph)))
             \<and> length ((ph @ map refund_entry ph) @ map refund_entry (ph @ map refund_entry ph))
                 = 4 * length ph
             \<and> subscript r'' ''status'' = Inr (JStr ''cancelled''))"
    using iff res2 c d e unfolding ph1_def by blast
  then show ?thesis
    by (simp only: b a)
qed

theorem invoke_twice_witness:
  "subscript example_dataset ''reservations'' = Inr (JDict example_reservations)
   \<and> map_of example_reservations ''4WQ150'' = Some example_reservation
   \<and> subscript example_reservation ''payment_history'' = Inr (JList example_history)
   \<and> list_all is_payment example_history
   \<and> (snd (invoke (snd (invoke example_dataset ''4WQ150'')) ''4WQ150'')
          = snd (invoke example_dataset ''4WQ150'') \<longleftrightarrow> example_history = [])
   \<and> (\<exists>r''. reservation_of (snd (invoke (snd (invoke example_dataset ''4WQ150'')) ''4WQ150'')) ''4WQ150''
               = Some r''
         \<and> subscript r'' ''payment_history''
             = Inr (JList ((example_history @ map refund_entry example_history)
                           @ map refund_entry (example_history @ map refund_entry example_history)))
         \<and> length ((example_history @ map refund_entry example_history)
                           @ map refund_entry (example_history @ map refund_entry example_history))
             = 4 * length example_history
         \<and> subscript r'' ''status'' = Inr (JStr ''cancelled''))"
  by (intro conjI example_hyps
        conjunct1 [OF invoke_twice [OF example_hyps]]
        conjunct2 [OF invoke_twice [OF example_hyps]])

subsection \<open>What a cancellation leaves alone\<close>

text \<open>
  Claim C10. For a reservation id that exists in the reservations of the dataset, the call
  changes at most the fields \<^verbatim>\<open>payment_history\<close> and \<^verbatim>\<open>status\<close> of that reservation: every
  top-level key other than \<^verbatim>\<open>reservations\<close> reads as before, every other reservation reads
  as before, and every other field of the targeted reservation reads as before.
\<close>

theorem invoke_frame:
  assumes "subscript data ''reservations'' = Inr (JDict rs)"
    and "map_of rs rid = Some r"
  shows "(\<forall>k. k \<noteq> ''reservations'' \<longrightarrow> subscript (snd (invoke data rid)) k = subscript data k)
       \<and> (\<forall>rid'. rid' \<noteq> rid \<longrightarrow>
             reservation_of (snd (invoke data rid)) rid' = reservation_of data rid')
       \<and> (\<exists>r'. reservation_of (snd (invoke data rid)) rid = Some r'
             \<and> (\<forall>f. f \<noteq> ''payment_history'' \<longrightarrow> f \<noteq> ''status'' \<longrightarrow>
                   subscript r' f = subscript r f))"
proof -
  have before: "reservation_of data rid = Some r"
    using assms by (simp add: reservation_of_def)
  consider (same) "snd (invoke data rid) = data"
    | (changed) reservations reservation h where
        "subscript data ''reservations'' = Inr reservations"
        "subscript reservations rid = Inr reservation"
        "snd (invoke data rid) =
           setitem data ''reservations''
             (setitem reservations rid
                (setitem (setitem reservation ''payment_history'' h) ''status'' (JStr ''cancelled'')))"
    using invoke_changes [of data rid] by blast
  then show ?thesis
  proof cases
    case same
    then show ?thesis using before by simp
  next
    case changed
    from changed(1) assms(1) have rs: "reservations = JDict rs" by simp
    from changed(2) assms(2) have res: "reservation = r" by (simp add: rs)
    let ?r' = "setitem (setitem r ''payment_history'' h) ''status'' (JStr ''cancelled'')"
    have after: "snd (invoke data rid) =
        setitem data ''reservations'' (JDict (AList.update rid ?r' rs))"
      using changed(3) by (simp add: rs res)
    have 1: "\<forall>k. k \<noteq> ''reservations'' \<longrightarrow> subscript (snd (invoke data rid)) k = subscript data k"
      by (simp add: after subscript_setitem_other)
    have 2: "\<forall>rid'. rid' \<noteq> rid \<longrightarrow>
             reservation_of (snd (invoke data rid)) rid' = reservation_of data rid'"
      using assms(1)
      by (simp add: after reservation_of_def subscript_setitem_same update_conv')
    have 3: "reservation_of (snd (invoke data rid)) rid = Some ?r'"
      by (simp add: after reservation_of_after [OF assms(1)])
    have 4: "\<forall>f. f \<noteq> ''payment_history'' \<longrightarrow> f \<noteq> ''status'' \<longrightarrow> subscript ?r' f = subscript r f"
      by (simp add: subscript_setitem_other)
    from 1 2 3 4 show ?thesis by blast
  qed
qed

theorem invoke_frame_witness:
  "subscript example_dataset ''reservations'' = Inr (JDict example_reservations)
   \<and> map_of example_reservations ''4WQ150'' = Some example_reservation
   \<and> ''users'' \<noteq> ''reservations''
   \<and> subscript (snd (invoke example_dataset ''4WQ150'')) ''users''
       = subscript example_dataset ''users''
   \<and> ''ZFA04Y'' \<noteq> ''4WQ150''
   \<and> reservation_of (snd (invoke example_dataset ''4WQ150'')) ''ZFA04Y''
       = reservation_of example_dataset ''ZFA04Y''
   \<and> (\<exists>r'. reservation_of (snd (invoke example_dataset ''4WQ150'')) ''4WQ150'' = Some r'
         \<and> subscript r' ''reservation_id'' = subscript example_reservation ''reservation_id'')"
proof -
  note frame = invoke_frame [OF example_hyps(1,2)]
  have k: "''users'' \<noteq> ''reservations''" and i: "''ZFA04Y'' \<noteq> ''4WQ150''"
    and f1: "''reservation_id'' \<noteq> ''payment_history''" and f2: "''reservation_id'' \<noteq> ''status''"
    by simp_all
  note 1 = conjunct1 [OF frame, THEN spec, THEN mp, OF k]
  note 2 = conjunct1 [OF conjunct2 [OF frame], THEN spec, THEN mp, OF i]
  from conjunct2 [OF conjunct2 [OF frame]] obtain r' where
    r': "reservation_of (snd (invoke example_dataset ''4WQ150'')) ''4WQ150'' = Some r'"
    and f: "\<forall>f. f \<noteq> ''payment_history'' \<longrightarrow> f \<noteq> ''status'' \<longrightarrow>
              subscript r' f = subscript example_reservation f"
    by (elim exE conjE)
  note 3 = f [THEN spec, THEN mp, THEN mp, OF f1 f2]
  have 4: "\<exists>r'. reservation_of (snd (invoke example_dataset ''4WQ150'')) ''4WQ150'' = Some r'
         \<and> subscript r' ''reservation_id'' = subscript example_reservation ''reservation_id''"
    by (rule exI [of _ r'], rule conjI, rule r', rule 3)
  show ?thesis
    by (intro conjI example_hyps(1,2) k 1 i 2 4)
qed

lemma other_reservation_kept:
  "reservation_of example_dataset ''ZFA04Y'' = Some other_reservation"
  by (simp add: reservation_of_def example_dataset_def example_reservations_def)

section \<open>Properties of \<^verbatim>\<open>_collect_diffs\<close>\<close>

subsection \<open>Auxiliary facts\<close>

lemma collect_diffs_full:
  "limit \<le> int (length diffs') \<Longrightarrow> collect_diffs agent gt path diffs' limit = diffs'"
  by (simp add: collect_diffs.simps)

lemma collect_diffs_type:
  "\<not> limit \<le> int (length diffs') \<Longrightarrow> py_type agent \<noteq> py_type gt \<Longrightarrow>
   collect_diffs agent gt path diffs' limit = diffs' @ [ValueDiff path (py_str agent) (py_str gt)]"
  by (simp add: collect_diffs.simps)

lemma collect_diffs_dict:
  "\<not> limit \<le> int (length diffs') \<Longrightarrow>
   collect_diffs (JDict a) (JDict g) path diffs' limit =
     collect_dict_loop (sort (remdups (map fst a @ map fst g))) a g path diffs' limit"
  by (simp add: collect_diffs.simps)

lemma collect_diffs_list:
  "\<not> limit \<le> int (length diffs') \<Longrightarrow>
   collect_diffs (JList a) (JList g) path diffs' limit =
     collect_list_loop (zip a g) 0 path
       (if length a \<noteq> length g then diffs' @ [LenDiff path (length a) (length g)] else diffs')
       limit"
  by (simp add: collect_diffs.simps)


lemma collect_diffs_scalar:
  "\<not> limit \<le> int (length diffs') \<Longrightarrow> is_scalar agent \<Longrightarrow>
   collect_diffs agent gt path diffs' limit =
     (if agent \<noteq> gt then diffs' @ [ValueDiff path (py_str agent) (py_str gt)] else diffs')"
  by (cases agent; cases gt) (auto simp add: collect_diffs.simps)

lemma collect_bound:
  "int (length (collect_diffs agent gt path diffs' limit)) \<le> max (int (length diffs')) limit"
  "int (length (collect_dict_loop ks a g path diffs' limit)) \<le> max (int (length diffs')) limit"
  "int (length (collect_list_loop ps i path diffs' limit)) \<le> max (int (length diffs')) limit"
proof (induction agent gt path diffs' limit and ks a g path diffs' limit and ps i path diffs' limit
    rule: collect_diffs_collect_dict_loop_collect_list_loop.induct)
  case (1 agent gt path diffs' limit)
  show ?case
  proof (cases "limit \<le> int (length diffs')")
    case True
    then show ?thesis by (simp add: collect_diffs_full)
  next
    case room: False
    show ?thesis
    proof (cases "py_type agent \<noteq> py_type gt")
      case True
      with room show ?thesis by (simp add: collect_diffs_type)
    next
      case same: False
      show ?thesis
      proof (cases agent)
        case (JList xs)
        with same obtain ys where gt: "gt = JList ys" by (cases gt) auto
        from "1.IH"(1) [OF room same refl JList gt]
        show ?thesis using room by (auto simp: collect_diffs_list JList gt split: if_splits)
      next
        case (JDict d)
        with same obtain e where gt: "gt = JDict e" by (cases gt) auto
        from "1.IH"(2) [OF room same refl JDict gt]
        show ?thesis using room by (simp add: collect_diffs_dict JDict gt)
      qed (use room in \<open>auto simp: collect_diffs_scalar\<close>)
    qed
  qed
next
  case (2 a g path diffs' limit)
  then show ?case by simp
next
  case (3 k ks a g path diffs' limit)
  show ?case
  proof (cases "limit \<le> int (length diffs')")
    case True
    then show ?thesis by simp
  next
    case room: False
    from "3.IH"(1) [OF room refl] "3.IH"(2) [OF room refl] room
    show ?thesis
      by (auto simp: Let_def split: option.splits)
  qed
next
  case (4 i path diffs' limit)
  then show ?case by simp
next
  case (5 av gv rest i path diffs' limit)
  then show ?case by (cases "limit \<le> int (length diffs')") auto
qed

lemma collect_same:
  "agent = gt \<Longrightarrow> collect_diffs agent gt path diffs' limit = diffs'"
  "(\<forall>k \<in> set ks. map_of a k = map_of g k) \<Longrightarrow> collect_dict_loop ks a g path diffs' limit = diffs'"
  "(\<forall>p \<in> set ps. fst p = snd p) \<Longrightarrow> collect_list_loop ps i path diffs' limit = diffs'"
proof (induction agent gt path diffs' limit and ks a g path diffs' limit and ps i path diffs' limit
    rule: collect_diffs_collect_dict_loop_collect_list_loop.induct)
  case (1 agent gt path diffs' limit)
  show ?case
  proof (cases "limit \<le> int (length diffs')")
    case True
    then show ?thesis by (simp add: collect_diffs_full)
  next
    case room: False
    have same: "\<not> py_type agent \<noteq> py_type gt" using "1.prems" by simp
    show ?thesis
    proof (cases agent)
      case (JList xs)
      with "1.prems" have gt: "gt = JList xs" by simp
      have "\<forall>p \<in> set (zip xs xs). fst p = snd p"
        by (auto simp: set_zip)
      with "1.IH"(1) [OF room same refl JList gt]
      show ?thesis using room by (simp add: collect_diffs_list JList gt)
    next
      case (JDict d)
      with "1.prems" have gt: "gt = JDict d" by simp
      from "1.IH"(2) [OF room same refl JDict gt]
      show ?thesis using room by (simp add: collect_diffs_dict JDict gt)
    qed (use room "1.prems" in \<open>auto simp: collect_diffs_scalar\<close>)
  qed
next
  case (2 a g path diffs' limit)
  then show ?case by simp
next
  case (3 k ks a g path diffs' limit)
  show ?case
  proof (cases "limit \<le> int (length diffs')")
    case True
    then show ?thesis by simp
  next
    case room: False
    from "3.prems" have k: "map_of a k = map_of g k" and ks: "\<forall>k \<in> set ks. map_of a k = map_of g k"
      by simp_all
    show ?thesis
    proof (cases "map_of a k")
      case None
      with k "3.IH"(2) [OF room refl ks] room show ?thesis by (simp add: Let_def)
    next
      case (Some v)
      with k have g: "map_of g k = Some v" by simp
      from "3.IH"(1) [OF room refl Some g] have "collect_diffs v v (if path \<noteq> [] then path @ ''.'' @ k else k) diffs' limit = diffs'"
        by simp
      with Some g "3.IH"(2) [OF room refl ks] room show ?thesis by (simp add: Let_def)
    qed
  qed
next
  case (4 i path diffs' limit)
  then show ?case by simp
next
  case (5 av gv rest i path diffs' limit)
  then show ?case by (cases "limit \<le> int (length diffs')") auto
qed


lemma dict_loop_one:
  assumes "distinct ks" and "k \<in> set ks"
    and "\<forall>k' \<in> set ks. k' \<noteq> k \<longrightarrow> map_of a k' = map_of g k'"
    and "map_of a k = Some v" and "map_of g k = Some v'"
    and "\<And>ds. \<not> limit \<le> int (length ds) \<Longrightarrow>
           collect_diffs v v' (if path \<noteq> [] then path @ ''.'' @ k else k) ds limit = ds @ [r]"
    and "\<not> limit \<le> int (length diffs')"
  shows "collect_dict_loop ks a g path diffs' limit = diffs' @ [r]"
  using assms(1,2,3,7)
proof (induction ks arbitrary: diffs')
  case Nil
  then show ?case by simp
next
  case (Cons k0 ks)
  show ?case
  proof (cases "k0 = k")
    case True
    with Cons.prems have "\<forall>k' \<in> set ks. map_of a k' = map_of g k'"
      by auto
    then have "collect_dict_loop ks a g path (diffs' @ [r]) limit = diffs' @ [r]"
      by (rule collect_same(2))
    with True Cons.prems(4) assms(4,5,6) show ?thesis
      by (simp add: Let_def)
  next
    case False
    with Cons.prems have same: "map_of a k0 = map_of g k0" and rest: "distinct ks" "k \<in> set ks"
      "\<forall>k' \<in> set ks. k' \<noteq> k \<longrightarrow> map_of a k' = map_of g k'"
      by auto
    have step: "(case map_of a k0 of
              None \<Rightarrow>
                (case map_of g k0 of
                   None \<Rightarrow> diffs'
                 | Some gv \<Rightarrow> diffs' @ [ValueDiff (if path \<noteq> [] then path @ ''.'' @ k0 else k0) ''<missing>'' (py_str gv)])
            | Some av \<Rightarrow>
                (case map_of g k0 of
                   None \<Rightarrow> diffs' @ [ValueDiff (if path \<noteq> [] then path @ ''.'' @ k0 else k0) (py_str av) ''<missing>'']
                 | Some gv \<Rightarrow> collect_diffs av gv (if path \<noteq> [] then path @ ''.'' @ k0 else k0) diffs' limit)) = diffs'"
      using same by (auto simp: collect_same(1) split: option.splits)
    from Cons.IH [OF rest Cons.prems(4)] Cons.prems(4) show ?thesis
      by (simp add: Let_def step del: collect_diffs.simps)
  qed
qed

lemma list_loop_one:
  assumes "i < length xs"
    and "\<And>ds. \<not> limit \<le> int (length ds) \<Longrightarrow>
           collect_diffs (xs ! i) v' (path @ ''['' @ digits (j + i) @ '']'') ds limit = ds @ [r]"
    and "\<not> limit \<le> int (length diffs')"
  shows "collect_list_loop (zip xs (xs[i := v'])) j path diffs' limit = diffs' @ [r]"
  using assms
proof (induction xs arbitrary: i j diffs')
  case Nil
  then show ?case by simp
next
  case (Cons x xs)
  show ?case
  proof (cases i)
    case 0
    have "\<forall>p \<in> set (zip xs xs). fst p = snd p" by (auto simp: set_zip)
    then have "collect_list_loop (zip xs xs) (Suc j) path (diffs' @ [r]) limit = diffs' @ [r]"
      by (rule collect_same(3))
    with 0 Cons.prems(2) [OF Cons.prems(3)] Cons.prems(3) show ?thesis
      by simp
  next
    case (Suc i')
    have "collect_list_loop (zip xs (xs[i' := v'])) (Suc j) path diffs' limit = diffs' @ [r]"
    proof (rule Cons.IH)
      show "i' < length xs" using Cons.prems(1) Suc by simp
      show "collect_diffs (xs ! i') v' (path @ ''['' @ digits (Suc j + i') @ '']'') ds limit = ds @ [r]"
        if "\<not> limit \<le> int (length ds)" for ds
        using Cons.prems(2) [OF that] Suc by simp
      show "\<not> limit \<le> int (length diffs')" by (rule Cons.prems(3))
    qed
    with Suc Cons.prems(3) show ?thesis
      by (simp add: collect_same(1))
  qed
qed

lemma one_leaf:
  assumes "get_at agent steps = Some la" and "is_scalar la" and "is_scalar lg" and "la \<noteq> lg"
    and "\<not> limit \<le> int (length diffs')"
  shows "collect_diffs agent (put_at agent steps lg) path diffs' limit =
           diffs' @ [ValueDiff (extend_path path steps) (py_str la) (py_str lg)]"
  using assms(1,5)
proof (induction steps arbitrary: agent path diffs')
  case Nil
  then show ?case using assms(2,4) by (simp add: collect_diffs_scalar)
next
  case (Cons s steps)
  show ?case
  proof (cases s)
    case (Key k)
    with Cons.prems(1) obtain d v where agent: "agent = JDict d"
      and v: "map_of d k = Some v" and la: "get_at v steps = Some la"
      by (cases agent) (auto split: option.splits)
    let ?v' = "put_at v steps lg"
    let ?g = "AList.update k ?v' d"
    let ?ks = "sort (remdups (map fst d @ map fst ?g))"
    have "k \<in> fst ` set d" using v by (metis map_of_eq_None_iff option.distinct(1))
    then have 1: "k \<in> set ?ks" by simp
    have 2: "distinct ?ks" by simp
    have 3: "\<forall>k' \<in> set ?ks. k' \<noteq> k \<longrightarrow> map_of d k' = map_of ?g k'"
      by (simp add: update_conv')
    have 4: "map_of ?g k = Some ?v'" by (simp add: update_conv')
    have "collect_dict_loop ?ks d ?g path diffs' limit =
        diffs' @ [ValueDiff (extend_path (if path \<noteq> [] then path @ ''.'' @ k else k) steps) (py_str la) (py_str lg)]"
      using 2 1 3 v 4 _ Cons.prems(2)
    proof (rule dict_loop_one)
      show "collect_diffs v ?v' (if path \<noteq> [] then path @ ''.'' @ k else k) ds limit =
          ds @ [ValueDiff (extend_path (if path \<noteq> [] then path @ ''.'' @ k else k) steps) (py_str la) (py_str lg)]"
        if "\<not> limit \<le> int (length ds)" for ds
        using la that by (rule Cons.IH)
    qed
    then show ?thesis
      using Cons.prems(2) by (simp add: agent Key v collect_diffs_dict)
  next
    case (Idx i)
    with Cons.prems(1) obtain xs where agent: "agent = JList xs"
      and i: "i < length xs" and la: "get_at (xs ! i) steps = Some la"
      by (cases agent) (auto split: if_splits)
    let ?v' = "put_at (xs ! i) steps lg"
    have "collect_list_loop (zip xs (xs[i := ?v'])) 0 path diffs' limit =
        diffs' @ [ValueDiff (extend_path (path @ ''['' @ digits i @ '']'') steps) (py_str la) (py_str lg)]"
      using i _ Cons.prems(2)
    proof (rule list_loop_one)
      show "collect_diffs (xs ! i) ?v' (path @ ''['' @ digits (0 + i) @ '']'') ds limit =
          ds @ [ValueDiff (extend_path (path @ ''['' @ digits i @ '']'') steps) (py_str la) (py_str lg)]"
        if "\<not> limit \<le> int (length ds)" for ds
        using Cons.IH [OF la that] by simp
    qed
    then show ?thesis
      using Cons.prems(2) by (simp add: agent Idx i collect_diffs_list)
  qed
qed

lemma extend_path_nonempty:
  "p \<noteq> [] \<Longrightarrow> extend_path p steps = p @ concat (map step_str steps)"
proof (induction steps arbitrary: p)
  case Nil
  then show ?case by simp
next
  case (Cons s steps)
  then show ?case by (cases s) simp_all
qed

lemma dot_bracket_path_joined:
  assumes "\<And>rest. steps = Key [] # rest \<Longrightarrow> rest = []"
  shows "dot_bracket_path steps = joined_path steps"
proof (cases steps)
  case Nil
  then show ?thesis by (simp add: dot_bracket_path_def)
next
  case (Cons s rest)
  show ?thesis
  proof (cases s)
    case (Key k)
    show ?thesis
    proof (cases "k = []")
      case True
      with assms Cons Key have "rest = []" by simp
      with True Cons Key show ?thesis by (simp add: dot_bracket_path_def)
    next
      case False
      with Cons Key show ?thesis by (simp add: dot_bracket_path_def extend_path_nonempty)
    qed
  next
    case (Idx i)
    with Cons show ?thesis by (simp add: dot_bracket_path_def extend_path_nonempty)
  qed
qed




subsection \<open>Identical structures, and structures that differ in one leaf\<close>

text \<open>
  Claim C3. Started with an empty list of diffs and a positive limit, \<^verbatim>\<open>_collect_diffs\<close>
  appends nothing when the two structures are identical. When the first structure is a
  dictionary with a leaf \<open>la\<close> at the position \<open>steps\<close> and the second structure is the
  same dictionary with another leaf \<open>lg\<close> at that position, it appends exactly one record:
  its path is the dot/bracket path of the position, and it carries \<^verbatim>\<open>str\<close> of the two
  leaves.
\<close>

theorem collect_diffs_identical_or_one_leaf:
  assumes "0 < limit"
  shows "collect_diffs x x path [] limit = []
       \<and> (get_at (JDict d) steps = Some la \<and> is_scalar la \<and> is_scalar lg \<and> la \<noteq> lg \<longrightarrow>
            collect_diffs (JDict d) (put_at (JDict d) steps lg) [] [] limit
              = [ValueDiff (dot_bracket_path steps) (py_str la) (py_str lg)])"
proof (intro conjI impI)
  show "collect_diffs x x path [] limit = []"
    by (rule collect_same(1)) simp
next
  assume h: "get_at (JDict d) steps = Some la \<and> is_scalar la \<and> is_scalar lg \<and> la \<noteq> lg"
  have room: "\<not> limit \<le> int (length ([] :: diff list))"
    using assms by simp
  from h have "collect_diffs (JDict d) (put_at (JDict d) steps lg) [] [] limit
      = [] @ [ValueDiff (extend_path [] steps) (py_str la) (py_str lg)]"
    using room by (intro one_leaf) simp_all
  then show "collect_diffs (JDict d) (put_at (JDict d) steps lg) [] [] limit
      = [ValueDiff (dot_bracket_path steps) (py_str la) (py_str lg)]"
    by (simp add: dot_bracket_path_def)
qed

lemma example_leaf:
  "get_at (JDict example_agent_items) example_steps = Some (JInt 2)"
  "put_at (JDict example_agent_items) example_steps (JInt 3) = example_gt"
  by (simp_all add: example_agent_items_def example_steps_def example_gt_def)

lemma example_path: "dot_bracket_path example_steps = ''reservations.4WQ150.baggages[1]''"
  unfolding dot_bracket_path_def example_steps_def by code_simp

lemma example_strs: "py_str (JInt 2) = ''2''" "py_str (JInt 3) = ''3''"
  by code_simp+

theorem collect_diffs_identical_or_one_leaf_witness:
  "(0::int) < 50
   \<and> collect_diffs example_gt example_gt [] [] 50 = []
   \<and> get_at (JDict example_agent_items) example_steps = Some (JInt 2)
   \<and> is_scalar (JInt 2) \<and> is_scalar (JInt 3) \<and> JInt 2 \<noteq> JInt 3
   \<and> collect_diffs (JDict example_agent_items) example_gt [] [] 50
        = [ValueDiff ''reservations.4WQ150.baggages[1]'' ''2'' ''3'']"
proof -
  have pos: "(0::int) < 50" by simp
  note inst = collect_diffs_identical_or_one_leaf [OF pos]
  have leaf: "get_at (JDict example_agent_items) example_steps = Some (JInt 2)
      \<and> is_scalar (JInt 2) \<and> is_scalar (JInt 3) \<and> JInt 2 \<noteq> JInt 3"
    by (simp add: example_leaf(1))
  have one: "collect_diffs (JDict example_agent_items) example_gt [] [] 50
        = [ValueDiff ''reservations.4WQ150.baggages[1]'' ''2'' ''3'']"
    using conjunct2 [OF inst, THEN mp, OF leaf]
    by (simp only: example_leaf(2) example_path example_strs)
  show ?thesis
    by (intro conjI pos conjunct1 [OF inst] example_leaf(1) one) simp_all
qed

subsection \<open>The record cap\<close>

text \<open>
  Claim C8, as stated, ends with: started from an empty list, the final length never
  exceeds the limit, for every limit. With a negative limit the function returns at once,
  and the empty list it leaves is longer than the limit.
\<close>

theorem collect_diffs_capped_counterexample:
  "\<not> int (length (collect_diffs JNull JNull [] [] (- 1))) \<le> - 1"
  by (simp add: collect_diffs_full)

text \<open>
  Claim C8, amended. For every pair of compared values, every path and every limit, the
  length of the list after the call is at most the maximum of its length before the call
  and the limit; in particular, started from an empty list with a limit that is not
  negative, the final length never exceeds the limit.
\<close>

theorem collect_diffs_capped:
  "int (length (collect_diffs agent gt path diffs' limit)) \<le> max (int (length diffs')) limit
   \<and> (0 \<le> limit \<longrightarrow> int (length (collect_diffs agent gt path [] limit)) \<le> limit)"
proof (intro conjI impI)
  show "int (length (collect_diffs agent gt path diffs' limit)) \<le> max (int (length diffs')) limit"
    by (rule collect_bound(1))
next
  assume "0 \<le> limit"
  with collect_bound(1) [of agent gt path "[]" limit]
  show "int (length (collect_diffs agent gt path [] limit)) \<le> limit"
    by simp
qed

theorem collect_diffs_capped_witness:
  "(0::int) \<le> 1
   \<and> int (length (collect_diffs (JList long_list) (JList [JInt 6, JInt 8]) [] [] 1)) \<le> 1"
proof -
  have nonneg: "(0::int) \<le> 1" by simp
  show ?thesis
    by (intro conjI nonneg
          conjunct2 [OF collect_diffs_capped, THEN mp, OF nonneg])
qed

subsection \<open>Lists of different lengths\<close>





section \<open>Properties of \<^verbatim>\<open>_simulate_gt_data\<close>\<close>

text \<open>An exception outside \<^verbatim>\<open>Exception\<close> raised by the tool of a replayed action ends the
  replay, and no dataset is returned.\<close>

lemma replay_aborts:
  assumes "name a \<notin> set (get_terminate_tools env)"
    and "tools_map env (name a) = Some tool_cls"
    and "tool_cls data (kwargs a) = (Inl (RaisedBase msg), data1)"
  shows "replay env data (a # rest) = Inl (PyBaseException msg)"
  using assms by simp

text \<open>A tool that raises an instance of \<^verbatim>\<open>Exception\<close> is treated like one that returns:
  the rest of the task is replayed on the dataset it left.\<close>

lemma replay_after_raise:
  assumes "name a \<notin> set (get_terminate_tools env)"
    and "tools_map env (name a) = Some tool_cls"
    and "tool_cls data (kwargs a) = (Inl (Raised e), data1)"
  shows "replay env data (a # rest) = replay env data1 rest"
  using assms by simp

lemma replay_run_actions:
  assumes "raises_exceptions_only env"
  shows "replay env data acts = Inr (run_actions env data acts)"
proof (induction acts arbitrary: data)
  case Nil
  show ?case by (simp add: run_actions_def)
next
  case (Cons a acts)
  show ?case
  proof (cases "replayed env a")
    case True
    then obtain tool_cls where tool: "tools_map env (name a) = Some tool_cls"
      and live: "name a \<notin> set (get_terminate_tools env)"
      by (auto simp: replayed_def is_terminal_def has_tool_def get_terminate_tools_def
            split: option.splits)
    obtain outcome data1 where res: "tool_cls data (kwargs a) = (outcome, data1)"
      by (cases "tool_cls data (kwargs a)")
    from assms tool have "\<forall>msg. fst (tool_cls data (kwargs a)) \<noteq> Inl (RaisedBase msg)"
      unfolding raises_exceptions_only_def by blast
    with res have "\<forall>msg. outcome \<noteq> Inl (RaisedBase msg)"
      by simp
    then have "replay env data (a # acts) = replay env (snd (tool_cls data (kwargs a))) acts"
      using tool live res by (cases outcome) (auto split: raised.splits)
    with True tool Cons.IH show ?thesis
      by (simp add: run_actions_def apply_action_def)
  next
    case False
    then have "replay env data (a # acts) = replay env data acts"
      by (auto simp: replayed_def is_terminal_def has_tool_def get_terminate_tools_def
            split: option.splits)
    with False Cons.IH show ?thesis
      by (simp add: run_actions_def)
  qed
qed

lemma run_actions_append:
  "run_actions env data (pre @ post) = run_actions env (run_actions env data pre) post"
  by (simp add: run_actions_def)

text \<open>
  Claim C7, as stated, says that any exception raised by a tool invocation is suppressed
  and that the resulting dataset is always returned. In the environment \<open>exit_env\<close> the
  dataset is loaded, the tool of the third action raises \<^verbatim>\<open>SystemExit\<close>, which
  \<^verbatim>\<open>contextlib.suppress(Exception)\<close> lets through, and \<^verbatim>\<open>_simulate_gt_data\<close> returns no
  dataset: the exception leaves it.
\<close>

theorem simulate_gt_data_exit_counterexample:
  "data_load_func exit_env = Inr example_dataset
   \<and> simulate_gt_data exit_env = Inl (PyBaseException ''SystemExit'')"
  by (simp add: simulate_gt_data_def exit_env_def example_env_def example_actions_def
        example_tools_map_def get_terminate_tools_def example_note_tool_def
        example_exit_tool_def example_dataset_def)

text \<open>
  Claim C7, amended. When the loader yields a fresh dataset \<open>d\<close> and no tool raises an
  exception outside \<^verbatim>\<open>Exception\<close>, \<^verbatim>\<open>_simulate_gt_data\<close> returns the dataset obtained from
  \<open>d\<close> by applying, in the order of the task, the actions that are neither terminal (named
  in \<^verbatim>\<open>env.terminate_tools\<close>) nor without a tool in the tools map, where applying an action
  keeps the dataset as its tool left it, whether the tool returned or raised. So no such
  action aborts the replay: wherever the task is split after an action, the result is the
  replay of the later actions on the dataset reached after that action.
\<close>

theorem simulate_gt_data_replays:
  assumes "data_load_func env = Inr d"
    and "raises_exceptions_only env"
  shows "simulate_gt_data env = Inr (run_actions env d (task_actions env))
       \<and> (\<forall>pre a post. task_actions env = pre @ a # post \<longrightarrow>
             simulate_gt_data env = Inr (run_actions env (run_actions env d (pre @ [a])) post))"
proof (intro conjI allI impI)
  show "simulate_gt_data env = Inr (run_actions env d (task_actions env))"
    using assms(1) by (simp add: simulate_gt_data_def replay_run_actions [OF assms(2)])
next
  fix pre a post
  assume "task_actions env = pre @ a # post"
  then have "task_actions env = (pre @ [a]) @ post" by simp
  then show "simulate_gt_data env = Inr (run_actions env (run_actions env d (pre @ [a])) post)"
    using assms(1)
    by (simp only: simulate_gt_data_def replay_run_actions [OF assms(2)] run_actions_append)
      simp
qed

lemma example_env_fields:
  "data_load_func example_env = Inr example_dataset"
  "task_actions example_env = example_actions"
  by (simp_all add: example_env_def)

lemma example_env_raises_exceptions_only: "raises_exceptions_only example_env"
  by (auto simp: raises_exceptions_only_def example_env_def example_tools_map_def
        example_note_tool_def example_failing_tool_def example_transfer_tool_def
        split: if_splits)

lemma example_actions_split:
  "example_actions =
     [\<lparr>name = ''think'', kwargs = []\<rparr>, \<lparr>name = ''note'', kwargs = [(''text'', JStr ''first'')]\<rparr>]
     @ \<lparr>name = ''update_user'', kwargs = []\<rparr>
     # [\<lparr>name = ''transfer'', kwargs = []\<rparr>,
        \<lparr>name = ''note'', kwargs = [(''text'', JStr ''last'')]\<rparr>]"
  by (simp add: example_actions_def)

text \<open>The replay of the example in the words of the specification: the action without a
  tool and the terminal action are left out (the dataset is not marked as transferred),
  and the change made by the tool that raised is kept.\<close>

lemma run_actions_example:
  "run_actions example_env example_dataset example_actions =
     JDict [(''reservations'', JDict example_reservations),
            (''users'', JNull),
            (''note'', JDict [(''text'', JStr ''last'')])]"
  by (simp add: run_actions_def replayed_def is_terminal_def has_tool_def apply_action_def
        example_env_def example_actions_def example_tools_map_def
        example_failing_tool_def example_note_tool_def
        example_transfer_tool_def example_dataset_def)

theorem simulate_gt_data_replays_witness:
  "data_load_func example_env = Inr example_dataset
   \<and> raises_exceptions_only example_env
   \<and> simulate_gt_data example_env = Inr (run_actions example_env example_dataset example_actions)
   \<and> run_actions example_env example_dataset example_actions =
       JDict [(''reservations'', JDict example_reservations),
              (''users'', JNull),
              (''note'', JDict [(''text'', JStr ''last'')])]
   \<and> simulate_gt_data example_env =
       Inr (run_actions example_env
             (run_actions example_env example_dataset
                ([\<lparr>name = ''think'', kwargs = []\<rparr>,
                  \<lparr>name = ''note'', kwargs = [(''text'', JStr ''first'')]\<rparr>]
                 @ [\<lparr>name = ''update_user'', kwargs = []\<rparr>]))
             [\<lparr>name = ''transfer'', kwargs = []\<rparr>,
              \<lparr>name = ''note'', kwargs = [(''text'', JStr ''last'')]\<rparr>])"
proof -
  note inst = simulate_gt_data_replays
    [OF example_env_fields(1) example_env_raises_exceptions_only]
  have split: "task_actions example_env =
     [\<lparr>name = ''think'', kwargs = []\<rparr>, \<lparr>name = ''note'', kwargs = [(''text'', JStr ''first'')]\<rparr>]
     @ \<lparr>name = ''update_user'', kwargs = []\<rparr>
     # [\<lparr>name = ''transfer'', kwargs = []\<rparr>,
        \<lparr>name = ''note'', kwargs = [(''text'', JStr ''last'')]\<rparr>]"
    by (simp only: example_env_fields(2) example_actions_split)
  have whole: "simulate_gt_data example_env
      = Inr (run_actions example_env example_dataset example_actions)"
    using conjunct1 [OF inst] by (simp only: example_env_fields(2))
  show ?thesis
    by (intro conjI example_env_fields(1) example_env_raises_exceptions_only whole
          run_actions_example
          conjunct2 [OF inst, THEN spec, THEN spec, THEN spec, THEN mp, OF split])
qed

text \<open>The function itself evaluated on the example: the same dataset.\<close>

lemma simulate_gt_data_example:
  "simulate_gt_data example_env =
     Inr (JDict [(''reservations'', JDict example_reservations),
                 (''users'', JNull),
                 (''note'', JDict [(''text'', JStr ''last'')])])"
  by (simp add: simulate_gt_data_def example_env_def example_actions_def example_tools_map_def
        get_terminate_tools_def example_failing_tool_def example_note_tool_def
        example_transfer_tool_def example_dataset_def)

text \<open>Had the terminal action been replayed, the dataset would be marked as
  transferred.\<close>

lemma terminal_action_would_change:
  "snd (example_transfer_tool
          (JDict [(''reservations'', JDict example_reservations), (''users'', JNull),
                  (''note'', JDict [(''text'', JStr ''first'')])]) [])
   = JDict [(''reservations'', JDict example_reservations), (''users'', JNull),
            (''note'', JDict [(''text'', JStr ''first'')]),
            (''transferred'', JBool True)]"
  by (simp add: example_transfer_tool_def)

section \<open>Properties of \<^verbatim>\<open>solve\<close>\<close>

subsection \<open>Idle iterations\<close>

lemma drain_trace_loop_empty:
  assumes "0 < n" and "trace_get_nowait ops w = Inr (None, w1)"
  shows "drain_trace_loop ops n (processed, texts, actions, w) = Inr (processed, texts, actions, w1)"
  using assms by (cases n) simp_all

lemma drain_outputs_loop_empty:
  assumes "0 < n" and "output_get_nowait ops w = Inr (None, w1)"
  shows "drain_outputs_loop ops n (processed, texts, w) = Inr ((processed, False), texts, w1)"
  using assms by (cases n) simp_all

lemma drain_command_trace_idle:
  assumes "trace_get_nowait ops w = Inr (None, w1)"
  shows "drain_command_trace ops 200 texts actions w = Inr (0, texts, actions, w1)"
  unfolding drain_command_trace_def using _ assms by (rule drain_trace_loop_empty) simp

lemma drain_agent_outputs_idle:
  assumes "output_get_nowait ops w = Inr (None, w1)"
  shows "drain_agent_outputs_and_respond ops 200 texts w = Inr ((0, False), texts, w1)"
  unfolding drain_agent_outputs_and_respond_def using _ assms
  by (rule drain_outputs_loop_empty) simp

text \<open>With silent queues, the loop runs until the idle counter reaches the limit, and it
  changes nothing else.\<close>

lemma interaction_loop_idle:
  assumes "never_yields ops"
  shows "idle_cycles st + k = idle_limit \<Longrightarrow> 0 < k \<Longrightarrow> k \<le> n \<Longrightarrow> \<not> done_flag st \<Longrightarrow>
         \<exists>st1. interaction_loop ops n st = Inr st1
           \<and> iterations st1 = iterations st + k
           \<and> idle_cycles st1 = idle_limit
           \<and> actions_executed st1 = actions_executed st
           \<and> aggregated_response_texts st1 = aggregated_response_texts st
           \<and> steps_taken st1 = steps_taken st
           \<and> \<not> done_flag st1"
proof (induction n arbitrary: st k)
  case 0
  then show ?case by simp
next
  case (Suc n)
  from assms obtain w1 where t: "trace_get_nowait ops (world st) = Inr (None, w1)"
    unfolding never_yields_def by blast
  from assms obtain w2 where o: "output_get_nowait ops w1 = Inr (None, w2)"
    unfolding never_yields_def by blast
  note dt = drain_command_trace_idle [OF t, of "aggregated_response_texts st" "actions_executed st"]
  note dout = drain_agent_outputs_idle [OF o, of "aggregated_response_texts st"]
  show ?case
  proof (cases "k = 1")
    case True
    with Suc.prems(1) have "idle_limit \<le> idle_cycles st + 1" by simp
    with Suc.prems True show ?thesis
      by (simp add: dt dout Let_def)
  next
    case False
    with Suc.prems have k: "1 < k" by simp
    with Suc.prems(1) have not_yet: "\<not> idle_limit \<le> idle_cycles st + 1" by simp
    let ?st1 = "\<lparr>actions_executed = actions_executed st,
                 aggregated_response_texts = aggregated_response_texts st,
                 steps_taken = steps_taken st, done_flag = False,
                 idle_cycles = idle_cycles st + 1, iterations = iterations st + 1,
                 world = sleep ops w2\<rparr>"
    have step: "interaction_loop ops (Suc n) st = interaction_loop ops n ?st1"
      using not_yet Suc.prems(4) by (simp add: dt dout Let_def)
    have "\<exists>st2. interaction_loop ops n ?st1 = Inr st2
           \<and> iterations st2 = iterations ?st1 + (k - 1)
           \<and> idle_cycles st2 = idle_limit
           \<and> actions_executed st2 = actions_executed ?st1
           \<and> aggregated_response_texts st2 = aggregated_response_texts ?st1
           \<and> steps_taken st2 = steps_taken ?st1
           \<and> \<not> done_flag st2"
      using Suc.prems k by (intro Suc.IH) simp_all
    then show ?thesis
      unfolding step using k by simp
  qed
qed

lemma interaction_loop_silent:
  assumes "never_yields ops"
  shows "\<exists>st. interaction_loop ops 200 (initial_loop_state w) = Inr st
           \<and> iterations st = 150
           \<and> idle_cycles st = 150
           \<and> actions_executed st = []
           \<and> aggregated_response_texts st = []
           \<and> steps_taken st = 0
           \<and> \<not> done_flag st"
  using interaction_loop_idle [OF assms, of "initial_loop_state w" 150 200]
  by (simp add: initial_loop_state_def idle_limit_def)

lemma strip_Nil: "strip [] = []"
  by (simp add: strip_def)

text \<open>The result of \<^verbatim>\<open>solve\<close> after a silent run in which nothing raises.\<close>

lemma solve_silent:
  assumes "never_yields ops"
    and "startup ops w = Inr (obs, w1)"
    and "interaction_loop ops 200 (initial_loop_state w1) = Inr st"
    and "simulate_gt_data (env_of ops (world st)) = Inr gt_data"
    and "calculate_reward ops (world st) = Inr (rr, w2)"
  shows "solve ops wiki task_idx 200 w =
           Inr \<lparr>reward = rr_reward rr,
                 messages = [(''system'', wiki), (''user'', obs)],
                 info = Info task_idx 0 []
                          (case rr_model_dump rr of None \<Rightarrow> JDict [] | Some dump \<Rightarrow> dump)\<rparr>"
proof -
  from interaction_loop_silent [OF assms(1), of w1] assms(3)
  have st: "actions_executed st = []" "aggregated_response_texts st = []" "steps_taken st = 0"
    by auto
  have "finish ops wiki task_idx obs st =
      Inr \<lparr>reward = rr_reward rr,
            messages = [(''system'', wiki), (''user'', obs)],
            info = Info task_idx 0 []
                     (case rr_model_dump rr of None \<Rightarrow> JDict [] | Some dump \<Rightarrow> dump)\<rparr>"
    using assms(4,5) st by (simp add: finish_def Let_def strip_Nil)
  then show ?thesis
    using assms(2,3) by (simp add: solve_def solve_body_def)
qed

lemma never_yields_silent_ops: "never_yields silent_ops"
  by (simp add: never_yields_def silent_ops_def)

lemma silent_ops_fields:
  "startup silent_ops w = Inr (''What is the status of reservation 4WQ150?'', w)"
  "simulate_gt_data (env_of silent_ops w) = Inr example_dataset"
  "calculate_reward silent_ops w = Inr (\<lparr>rr_reward = 1, rr_model_dump = None\<rparr>, w)"
  by (simp_all add: silent_ops_def silent_env_def simulate_gt_data_def)

lemma solve_silent_ops:
  "solve silent_ops wiki task_idx 200 () =
     Inr \<lparr>reward = 1,
           messages = [(''system'', wiki), (''user'', ''What is the status of reservation 4WQ150?'')],
           info = Info task_idx 0 [] (JDict [])\<rparr>"
proof -
  from interaction_loop_silent [OF never_yields_silent_ops, of "()"]
  obtain st where st: "interaction_loop silent_ops 200 (initial_loop_state ()) = Inr st"
    by blast
  from solve_silent [OF never_yields_silent_ops silent_ops_fields(1) st
      silent_ops_fields(2) silent_ops_fields(3), of wiki task_idx]
  show ?thesis by simp
qed

subsection \<open>A run without events\<close>

text \<open>
  Claim C5, as stated, ends with: the returned result carries the reward 0.0. The reward
  of the result is the one the environment computes; for the silent process on a task
  whose ground truth changes nothing, the environment gives 1, and \<^verbatim>\<open>solve\<close> returns a
  result with that reward.
\<close>

theorem solve_silent_counterexample:
  "never_yields silent_ops
   \<and> (\<exists>result. solve silent_ops ''wiki'' (Some 0) 200 () = Inr result \<and> reward result \<noteq> 0)"
  by (simp add: never_yields_silent_ops solve_silent_ops)

text \<open>
  Claim C5, amended. If the two queues never yield an event, the interaction loop of
  \<^verbatim>\<open>solve\<close> with the default of 200 steps ends after exactly 150 iterations, all idle and
  fewer than the cap, with \<^verbatim>\<open>actions_executed\<close> empty and \<^verbatim>\<open>steps_taken\<close> equal to 0; and
  when the replay of the ground truth and the computation of the reward do not raise,
  \<^verbatim>\<open>solve\<close> returns a result that carries the reward computed by the environment and an
  empty list of executed actions.
\<close>

theorem solve_silent_run:
  assumes "never_yields ops"
    and "startup ops w = Inr (obs, w1)"
  shows "\<exists>st. interaction_loop ops (nat 200) (initial_loop_state w1) = Inr st
           \<and> iterations st = 150 \<and> iterations st < 200 \<and> idle_cycles st = 150
           \<and> actions_executed st = [] \<and> steps_taken st = 0
           \<and> (\<forall>gt_data rr w2.
                simulate_gt_data (env_of ops (world st)) = Inr gt_data \<longrightarrow>
                calculate_reward ops (world st) = Inr (rr, w2) \<longrightarrow>
                (\<exists>result. solve ops wiki task_idx 200 w = Inr result
                   \<and> reward result = rr_reward rr
                   \<and> info result =
                       Info task_idx 0 []
                         (case rr_model_dump rr of None \<Rightarrow> JDict [] | Some dump \<Rightarrow> dump)))"
proof -
  from interaction_loop_silent [OF assms(1), of w1]
  obtain st where st: "interaction_loop ops 200 (initial_loop_state w1) = Inr st"
    and facts: "iterations st = 150" "idle_cycles st = 150" "actions_executed st = []"
      "steps_taken st = 0"
    by blast
  have "\<exists>result. solve ops wiki task_idx 200 w = Inr result
        \<and> reward result = rr_reward rr
        \<and> info result =
            Info task_idx 0 [] (case rr_model_dump rr of None \<Rightarrow> JDict [] | Some dump \<Rightarrow> dump)"
    if "simulate_gt_data (env_of ops (world st)) = Inr gt_data"
      and "calculate_reward ops (world st) = Inr (rr, w2)" for gt_data rr w2
    using solve_silent [OF assms(1) assms(2) st that, of wiki task_idx] by simp
  with st facts show ?thesis by auto
qed

theorem solve_silent_run_witness:
  "never_yields silent_ops
   \<and> startup silent_ops () = Inr (''What is the status of reservation 4WQ150?'', ())
   \<and> (\<exists>st. interaction_loop silent_ops (nat 200) (initial_loop_state ()) = Inr st
           \<and> iterations st = 150 \<and> iterations st < 200 \<and> idle_cycles st = 150
           \<and> actions_executed st = [] \<and> steps_taken st = 0
           \<and> simulate_gt_data (env_of silent_ops (world st)) = Inr example_dataset
           \<and> calculate_reward silent_ops (world st)
               = Inr (\<lparr>rr_reward = 1, rr_model_dump = None\<rparr>, world st)
           \<and> (\<exists>result. solve silent_ops ''wiki'' (Some 0) 200 () = Inr result
                 \<and> reward result = 1
                 \<and> info result = Info (Some 0) 0 [] (JDict [])))"
proof -
  from solve_silent_run [OF never_yields_silent_ops silent_ops_fields(1), of "()" "''wiki''" "Some 0"]
  obtain st where loop: "interaction_loop silent_ops (nat 200) (initial_loop_state ()) = Inr st"
    and counts: "iterations st = 150" "iterations st < 200" "idle_cycles st = 150"
      "actions_executed st = []" "steps_taken st = 0"
    and result: "\<forall>gt_data rr w2.
        simulate_gt_data (env_of silent_ops (world st)) = Inr gt_data \<longrightarrow>
        calculate_reward silent_ops (world st) = Inr (rr, w2) \<longrightarrow>
        (\<exists>result. solve silent_ops ''wiki'' (Some 0) 200 () = Inr result
           \<and> reward result = rr_reward rr
           \<and> info result =
               Info (Some 0) 0 [] (case rr_model_dump rr of None \<Rightarrow> JDict [] | Some dump \<Rightarrow> dump))"
    by (elim exE conjE)
  note gt = silent_ops_fields(2) [of "world st"]
  note rw = silent_ops_fields(3) [of "world st"]
  from result [THEN spec, THEN spec, THEN spec, THEN mp, THEN mp, OF gt rw]
  have res: "\<exists>result. solve silent_ops ''wiki'' (Some 0) 200 () = Inr result
                 \<and> reward result = 1
                 \<and> info result = Info (Some 0) 0 [] (JDict [])"
    by simp
  have "interaction_loop silent_ops (nat 200) (initial_loop_state ()) = Inr st
           \<and> iterations st = 150 \<and> iterations st < 200 \<and> idle_cycles st = 150
           \<and> actions_executed st = [] \<and> steps_taken st = 0
           \<and> simulate_gt_data (env_of silent_ops (world st)) = Inr example_dataset
           \<and> calculate_reward silent_ops (world st)
               = Inr (\<lparr>rr_reward = 1, rr_model_dump = None\<rparr>, world st)
           \<and> (\<exists>result. solve silent_ops ''wiki'' (Some 0) 200 () = Inr result
                 \<and> reward result = 1
                 \<and> info result = Info (Some 0) 0 [] (JDict []))"
    by (intro conjI loop counts gt rw res)
  then have "\<exists>st. interaction_loop silent_ops (nat 200) (initial_loop_state ()) = Inr st
           \<and> iterations st = 150 \<and> iterations st < 200 \<and> idle_cycles st = 150
           \<and> actions_executed st = [] \<and> steps_taken st = 0
           \<and> simulate_gt_data (env_of silent_ops (world st)) = Inr example_dataset
           \<and> calculate_reward silent_ops (world st)
               = Inr (\<lparr>rr_reward = 1, rr_model_dump = None\<rparr>, world st)
           \<and> (\<exists>result. solve silent_ops ''wiki'' (Some 0) 200 () = Inr result
                 \<and> reward result = 1
                 \<and> info result = Info (Some 0) 0 [] (JDict []))"
    by (rule exI [of _ st])
  then show ?thesis
    by (intro conjI never_yields_silent_ops silent_ops_fields(1))
qed

subsection \<open>Exceptions\<close>

text \<open>An exception of \<^verbatim>\<open>env.step\<close> for a traced command leaves the drain, the loop and the
  body of the \<^verbatim>\<open>try\<close> statement.\<close>

lemma drain_trace_loop_raises:
  assumes "0 < n" and "trace_get_nowait ops w = Inr (Some evt, w1)"
    and "\<not> (has_direction_enum ops \<and> agent_to_workflow evt)"
    and "command_name evt = Some c" and "c \<noteq> []"
    and "env_step ops \<lparr>name = c, kwargs = (case parameters evt of None \<Rightarrow> [] | Some kw \<Rightarrow> kw)\<rparr> w1
           = Inl e"
  shows "drain_trace_loop ops n (processed, texts, actions, w) = Inl e"
  using assms by (cases n) (auto simp: Let_def)

lemma interaction_loop_raises:
  assumes "0 < n"
    and "drain_command_trace ops 200 (aggregated_response_texts st) (actions_executed st) (world st)
           = Inl e"
  shows "interaction_loop ops n st = Inl e"
  using assms by (cases n) simp_all

lemma solve_body_raising_ops:
  "solve_body raising_ops wiki task_idx 200 () = Inl (PyException ''environment is closed'')"
proof -
  have "drain_trace_loop raising_ops 200 (0, [], [], ())
      = Inl (PyException ''environment is closed'')"
    by (rule drain_trace_loop_raises [where evt = cancel_event and c = "''cancel_reservation''"])
       (simp_all add: raising_ops_def silent_ops_def cancel_event_def)
  then have "drain_command_trace raising_ops 200
       (aggregated_response_texts (initial_loop_state ()))
       (actions_executed (initial_loop_state ())) (world (initial_loop_state ()))
      = Inl (PyException ''environment is closed'')"
    by (simp add: drain_command_trace_def initial_loop_state_def)
  with _ have "interaction_loop raising_ops (nat 200) (initial_loop_state ())
      = Inl (PyException ''environment is closed'')"
    by (rule interaction_loop_raises) simp
  moreover have "startup raising_ops () = Inr (''What is the status of reservation 4WQ150?'', ())"
    by (simp add: raising_ops_def silent_ops_def)
  ultimately show ?thesis
    by (simp add: solve_body_def)
qed

text \<open>Where the exception that leaves the body can come from: the start-up, the
  interaction loop, the replay of the ground truth, or the computation of the reward.\<close>

lemma finish_raises_iff:
  "finish ops wiki task_idx obs st = Inl e \<longleftrightarrow>
     simulate_gt_data (env_of ops (world st)) = Inl e
     \<or> (\<exists>gt_data. simulate_gt_data (env_of ops (world st)) = Inr gt_data
           \<and> calculate_reward ops (world st) = Inl e)"
  by (auto simp: finish_def Let_def split: sum.splits prod.splits)

lemma solve_body_raises_iff:
  "solve_body ops wiki task_idx max_num_steps w = Inl e \<longleftrightarrow>
     startup ops w = Inl e
     \<or> (\<exists>obs w1. startup ops w = Inr (obs, w1)
          \<and> (interaction_loop ops (nat max_num_steps) (initial_loop_state w1) = Inl e
              \<or> (\<exists>st. interaction_loop ops (nat max_num_steps) (initial_loop_state w1) = Inr st
                    \<and> finish ops wiki task_idx obs st = Inl e)))"
  by (auto simp: solve_body_def split: sum.splits prod.splits)

text \<open>One iteration of the loop lets through the exceptions of its two drains.\<close>

lemma interaction_loop_raises_iff:
  "interaction_loop ops (Suc n) st = Inl e \<longleftrightarrow>
     drain_command_trace ops 200 (aggregated_response_texts st) (actions_executed st) (world st)
       = Inl e
     \<or> (\<exists>p texts1 actions1 w1.
          drain_command_trace ops 200 (aggregated_response_texts st) (actions_executed st) (world st)
            = Inr (p, texts1, actions1, w1)
          \<and> (drain_agent_outputs_and_respond ops 200 texts1 w1 = Inl e
              \<or> (\<exists>q out_done texts2 w2.
                    drain_agent_outputs_and_respond ops 200 texts1 w1
                      = Inr ((q, out_done), texts2, w2)
                    \<and> \<not> (out_done \<or> done_flag st)
                    \<and> \<not> idle_limit \<le> (if p + q = 0 then idle_cycles st + 1 else 0)
                    \<and> interaction_loop ops n
                         \<lparr>actions_executed = actions1, aggregated_response_texts = texts2,
                          steps_taken = steps_taken st + (p + q), done_flag = False,
                          idle_cycles = (if p + q = 0 then idle_cycles st + 1 else 0),
                          iterations = iterations st + 1, world = sleep ops w2\<rparr> = Inl e)))"
  by (auto simp: Let_def split: sum.splits prod.splits if_splits)


text \<open>The \<^verbatim>\<open>except\<close> clause: an instance of \<^verbatim>\<open>Exception\<close> never leaves \<^verbatim>\<open>solve\<close>, and
  an exception outside \<^verbatim>\<open>Exception\<close> that leaves the body leaves \<^verbatim>\<open>solve\<close>.\<close>

lemma solve_no_exception_leaves:
  "solve ops wiki task_idx max_num_steps w \<noteq> Inl (PyException msg)"
  by (simp add: solve_def split: sum.splits py_exception.splits)

lemma solve_raising_ops:
  "solve raising_ops wiki task_idx 200 () =
     Inr \<lparr>reward = 0, messages = [(''system'', wiki)],
           info = ErrorInfo ''environment is closed''\<rparr>"
  by (simp add: solve_def solve_body_raising_ops)


subsection \<open>An exception at any call\<close>

lemma fault_at_simps:
  "fault_at None c = None"
  "fault_at (Some (k, e)) c = (if c = k then Some e else None)"
  by (simp_all add: fault_at_def)

lemma numbered_simps:
  "numbered None c (Inr (a, w1)) = Inr (a, (Suc c, w1))"
  "numbered None c (Inl x) = Inl x"
  "numbered (Some (k, e)) c answer = (if c = k then Inl e else numbered None c answer)"
  by (simp_all add: numbered_def fault_at_def)

lemma inject_fields:
  "startup (inject fault ops) (c, w) = numbered fault c (startup ops w)"
  "has_direction_enum (inject fault ops) = has_direction_enum ops"
  "trace_get_nowait (inject fault ops) (c, w) = numbered fault c (trace_get_nowait ops w)"
  "output_get_nowait (inject fault ops) (c, w) = numbered fault c (output_get_nowait ops w)"
  "env_step (inject fault ops) act (c, w) = numbered fault c (env_step ops act w)"
  "user_message_put (inject fault ops) s (c, w) =
     (case fault_at fault c of
        Some e \<Rightarrow> Inl e
      | None \<Rightarrow> (case user_message_put ops s w of Inl x \<Rightarrow> Inl x | Inr w1 \<Rightarrow> Inr (Suc c, w1)))"
  "sleep (inject fault ops) (c, w) = (c, sleep ops w)"
  "env_data (inject fault ops) (c, w) = env_data ops w"
  "calculate_reward (inject fault ops) (c, w) = numbered fault (Suc c) (calculate_reward ops w)"
  "respond_action_name (inject fault ops) = respond_action_name ops"
  "respond_action_field_name (inject fault ops) = respond_action_field_name ops"
  by (simp_all add: inject_def)





lemma replay_other_load:
  "replay (env\<lparr>data_load_func := load\<rparr>) data acts = replay env data acts"
  by (induction acts arbitrary: data)
     (auto simp: get_terminate_tools_def split: option.splits prod.splits sum.splits raised.splits)

lemma simulate_gt_data_inject:
  "simulate_gt_data (env_of (inject fault ops) (c, w)) =
     (case fault_at fault c of Some e \<Rightarrow> Inl e | None \<Rightarrow> simulate_gt_data (env_of ops w))"
  by (simp add: inject_def simulate_gt_data_def replay_other_load split: option.splits sum.splits)






text \<open>Without a fault, the numbered run is the run of the operations themselves.\<close>

lemma drain_trace_unnumbered:
  "map_sum id (\<lambda>(p1, t1, a1, (c1, w1)). (p1, t1, a1, w1))
     (drain_trace_loop (inject None ops) n (p, t, a, (c, w)))
   = drain_trace_loop ops n (p, t, a, w)"
  by (induction n arbitrary: p t a c w)
     (auto simp: inject_fields numbered_simps Let_def split: sum.splits option.splits)

lemma drain_outputs_unnumbered:
  "map_sum id (\<lambda>(pd1, t1, (c1, w1)). (pd1, t1, w1))
     (drain_outputs_loop (inject None ops) n (p, t, (c, w)))
   = drain_outputs_loop ops n (p, t, w)"
  by (induction n arbitrary: p t c w)
     (auto simp: inject_fields numbered_simps fault_at_simps Let_def
        split: sum.splits option.splits)


lemma drain_trace_unnumbered_cases:
  "(\<exists>x. drain_trace_loop (inject None ops) n (p, t, a, (c, w)) = Inl x
        \<and> drain_trace_loop ops n (p, t, a, w) = Inl x)
   \<or> (\<exists>p1 t1 a1 c1 w1.
         drain_trace_loop (inject None ops) n (p, t, a, (c, w)) = Inr (p1, t1, a1, (c1, w1))
         \<and> drain_trace_loop ops n (p, t, a, w) = Inr (p1, t1, a1, w1))"
  using drain_trace_unnumbered [of ops n p t a c w]
  by (cases "drain_trace_loop (inject None ops) n (p, t, a, (c, w))") auto

lemma drain_outputs_unnumbered_cases:
  "(\<exists>x. drain_outputs_loop (inject None ops) n (p, t, (c, w)) = Inl x
        \<and> drain_outputs_loop ops n (p, t, w) = Inl x)
   \<or> (\<exists>p1 d1 t1 c1 w1.
         drain_outputs_loop (inject None ops) n (p, t, (c, w)) = Inr ((p1, d1), t1, (c1, w1))
         \<and> drain_outputs_loop ops n (p, t, w) = Inr ((p1, d1), t1, w1))"
  using drain_outputs_unnumbered [of ops n p t c w]
  by (cases "drain_outputs_loop (inject None ops) n (p, t, (c, w))") auto

lemma interaction_loop_unnumbered:
  "map_sum id unnumbered (interaction_loop (inject None ops) n st)
   = interaction_loop ops n (unnumbered st)"
proof (induction n arbitrary: st)
  case 0
  then show ?case by simp
next
  case (Suc n)
  obtain c w where w: "world st = (c, w)"
    by (cases "world st")
  have fields: "aggregated_response_texts (unnumbered st) = aggregated_response_texts st"
    "actions_executed (unnumbered st) = actions_executed st"
    "steps_taken (unnumbered st) = steps_taken st"
    "done_flag (unnumbered st) = done_flag st"
    "idle_cycles (unnumbered st) = idle_cycles st"
    "iterations (unnumbered st) = iterations st"
    "world (unnumbered st) = w"
    using w by (simp_all add: unnumbered_def)
  from drain_trace_unnumbered_cases [of ops 200 0 "aggregated_response_texts st"
      "actions_executed st" c w]
  show ?case
  proof (elim disjE exE conjE)
    fix x
    assume "drain_trace_loop (inject None ops) 200
              (0, aggregated_response_texts st, actions_executed st, c, w) = Inl x"
      and "drain_trace_loop ops 200 (0, aggregated_response_texts st, actions_executed st, w) = Inl x"
    then show ?thesis
      using w by (simp add: drain_command_trace_def fields)
  next
    fix p1 t1 a1 c1 w1
    assume trace: "drain_trace_loop (inject None ops) 200
              (0, aggregated_response_texts st, actions_executed st, c, w) = Inr (p1, t1, a1, c1, w1)"
      "drain_trace_loop ops 200 (0, aggregated_response_texts st, actions_executed st, w)
         = Inr (p1, t1, a1, w1)"
    from drain_outputs_unnumbered_cases [of ops 200 0 t1 c1 w1]
    show ?thesis
    proof (elim disjE exE conjE)
      fix x
      assume "drain_outputs_loop (inject None ops) 200 (0, t1, c1, w1) = Inl x"
        and "drain_outputs_loop ops 200 (0, t1, w1) = Inl x"
      then show ?thesis
        using w trace
        by (simp add: drain_command_trace_def drain_agent_outputs_and_respond_def fields)
    next
      fix p2 d2 t2 c2 w2
      assume outputs: "drain_outputs_loop (inject None ops) 200 (0, t1, c1, w1)
            = Inr ((p2, d2), t2, c2, w2)"
        "drain_outputs_loop ops 200 (0, t1, w1) = Inr ((p2, d2), t2, w2)"
      let ?done1 = "if d2 then True else done_flag st"
      let ?idle1 = "if p1 + p2 = 0 then idle_cycles st + 1 else 0"
      let ?st1 = "\<lparr>actions_executed = a1, aggregated_response_texts = t2,
               steps_taken = steps_taken st + (p1 + p2), done_flag = ?done1,
               idle_cycles = ?idle1, iterations = iterations st + 1, world = (c2, w2)\<rparr>"
      let ?next = "?st1\<lparr>world := (c2, sleep ops w2)\<rparr>"
      show ?thesis
      proof (cases "?done1 \<or> idle_limit \<le> ?idle1")
        case True
        have C: "interaction_loop (inject None ops) (Suc n) st = Inr ?st1"
          using w trace outputs True
          by (auto simp: drain_command_trace_def drain_agent_outputs_and_respond_def Let_def)
        have P: "interaction_loop ops (Suc n) (unnumbered st) = Inr (unnumbered ?st1)"
          using w trace outputs True
          by (auto simp: drain_command_trace_def drain_agent_outputs_and_respond_def Let_def
                fields unnumbered_def)
        show ?thesis
          unfolding C P by simp
      next
        case False
        have C: "interaction_loop (inject None ops) (Suc n) st
            = interaction_loop (inject None ops) n ?next"
          using w trace outputs False
          by (auto simp: drain_command_trace_def drain_agent_outputs_and_respond_def Let_def
                inject_fields)
        have P: "interaction_loop ops (Suc n) (unnumbered st)
            = interaction_loop ops n (unnumbered ?next)"
          using w trace outputs False
          by (auto simp: drain_command_trace_def drain_agent_outputs_and_respond_def Let_def
                fields unnumbered_def)
        show ?thesis
          unfolding C P by (rule Suc.IH)
      qed
    qed
  qed
qed

lemma finish_unnumbered:
  "finish (inject None ops) wiki task_idx obs st = finish ops wiki task_idx obs (unnumbered st)"
proof -
  obtain c w where w: "world st = (c, w)"
    by (cases "world st")
  then show ?thesis
    by (auto simp: finish_def simulate_gt_data_inject fault_at_simps inject_fields numbered_simps
          unnumbered_def Let_def split: sum.splits)
qed

lemma solve_body_unnumbered:
  "solve_body (inject None ops) wiki task_idx max_num_steps (0, w)
   = solve_body ops wiki task_idx max_num_steps w"
proof (cases "startup ops w")
  case (Inl x)
  then show ?thesis
    by (simp add: solve_body_def inject_fields numbered_simps)
next
  case (Inr r)
  then obtain obs w1 where start: "startup ops w = Inr (obs, w1)"
    by (cases r) simp
  have init: "unnumbered (initial_loop_state (Suc 0, w1)) = initial_loop_state w1"
    by (simp add: unnumbered_def initial_loop_state_def)
  from interaction_loop_unnumbered [of ops "nat max_num_steps" "initial_loop_state (Suc 0, w1)",
      symmetric]
  show ?thesis
    using start
    by (cases "interaction_loop (inject None ops) (nat max_num_steps)
                 (initial_loop_state (Suc 0, w1))")
       (auto simp: solve_body_def inject_fields numbered_simps init finish_unnumbered)
qed

lemma solve_unnumbered:
  "solve (inject None ops) wiki task_idx max_num_steps (0, w)
   = solve ops wiki task_idx max_num_steps w"
  by (simp add: solve_def solve_body_unnumbered)

lemma drain_trace_loop_event:
  assumes "0 < n" and "trace_get_nowait ops w = Inr (Some evt, w1)"
    and "\<not> (has_direction_enum ops \<and> agent_to_workflow evt)"
    and "command_name evt = Some c" and "c \<noteq> []"
    and "response_text evt = Some txt" and "txt \<noteq> []"
    and "parameters evt = Some kw"
    and "env_step ops \<lparr>name = c, kwargs = kw\<rparr> w1 = Inr (res, w2)"
  shows "drain_trace_loop ops n (processed, texts, actions, w)
         = drain_trace_loop ops (n - 1)
             (processed + 1, texts @ [txt],
              actions @ [\<lparr>ea_name = c, ea_kwargs = kw, ea_response_text = Some txt,
                           ea_success = success evt\<rparr>],
              w2)"
  using assms by (cases n) (auto simp: Let_def)

lemma scripted_run:
  "interaction_loop (inject None scripted_ops) (nat 1) (initial_loop_state (1, [cancel_event]))
   = Inr scripted_end_state"
proof -
  let ?C = "inject None scripted_ops"
  have poll1: "trace_get_nowait ?C (1, [cancel_event]) = Inr (Some cancel_event, (2, []))"
    by (simp add: inject_fields numbered_simps scripted_ops_def)
  have step: "env_step ?C
       \<lparr>name = ''cancel_reservation'', kwargs = [(''reservation_id'', JStr ''4WQ150'')]\<rparr> (2, [])
     = Inr (\<lparr>observation = None, step_done = False\<rparr>, (3, []))"
    by (simp add: inject_fields numbered_simps scripted_ops_def)
  have poll2: "trace_get_nowait ?C (3, []) = Inr (None, (4, []))"
    by (simp add: inject_fields numbered_simps scripted_ops_def)
  have poll3: "output_get_nowait ?C (4, []) = Inr (None, (5, []))"
    by (simp add: inject_fields numbered_simps scripted_ops_def)
  have "drain_trace_loop ?C 200 (0, [], [], (1, [cancel_event]))
      = drain_trace_loop ?C (200 - 1)
          (0 + 1, [] @ [''cancelled''],
           [] @ [\<lparr>ea_name = ''cancel_reservation'',
                    ea_kwargs = [(''reservation_id'', JStr ''4WQ150'')],
                    ea_response_text = Some ''cancelled'',
                    ea_success = success cancel_event\<rparr>],
           (3, []))"
    by (rule drain_trace_loop_event [OF _ poll1 _ _ _ _ _ _ step])
       (simp_all add: cancel_event_def inject_fields scripted_ops_def)
  also have "\<dots> = Inr (0 + 1, [] @ [''cancelled''],
           [] @ [\<lparr>ea_name = ''cancel_reservation'',
                    ea_kwargs = [(''reservation_id'', JStr ''4WQ150'')],
                    ea_response_text = Some ''cancelled'',
                    ea_success = success cancel_event\<rparr>],
           (4, []))"
    by (rule drain_trace_loop_empty [OF _ poll2]) simp
  finally have trace: "drain_command_trace ?C 200 [] [] (Suc 0, [cancel_event])
      = Inr (1, [''cancelled''], [cancel_action], (4, []))"
    by (simp add: drain_command_trace_def cancel_action_def cancel_event_def)
  have outputs: "drain_agent_outputs_and_respond ?C 200 [''cancelled''] (4, [])
      = Inr ((0, False), [''cancelled''], (5, []))"
    by (rule drain_agent_outputs_idle [OF poll3])
  have sleep: "sleep ?C (5, []) = (5, [])"
    by (simp add: inject_fields scripted_ops_def)
  show ?thesis
    by (simp add: initial_loop_state_def trace outputs sleep Let_def idle_limit_def
          scripted_end_state_def)
qed

lemma scripted_ops_startup:
  "startup scripted_ops [cancel_event]
   = Inr (''What is the status of reservation 4WQ150?'', [cancel_event])"
  by (simp add: scripted_ops_def)




text \<open>What the run of the example returns when nothing raises: the result of the
  environment, with the executed action.\<close>

lemma solve_scripted_ops:
  "solve scripted_ops ''wiki'' (Some 0) 1 [cancel_event] =
     Inr \<lparr>reward = 1,
           messages = [(''system'', ''wiki''),
                       (''user'', ''What is the status of reservation 4WQ150?''),
                       (''assistant'', ''cancelled'')],
           info = Info (Some 0) 1 [cancel_action] (JDict [])\<rparr>"
proof -
  have init: "unnumbered (initial_loop_state (1, [cancel_event])) = initial_loop_state [cancel_event]"
    by (simp add: unnumbered_def initial_loop_state_def)
  have "interaction_loop scripted_ops (nat 1) (unnumbered (initial_loop_state (1, [cancel_event])))
      = map_sum id unnumbered
          (interaction_loop (inject None scripted_ops) (nat 1)
             (initial_loop_state (1, [cancel_event])))"
    by (rule interaction_loop_unnumbered [symmetric])
  then have loop: "interaction_loop scripted_ops (nat 1) (initial_loop_state [cancel_event])
      = Inr (unnumbered scripted_end_state)"
    by (simp only: scripted_run init map_sum.simps id_apply)
  have strip: "strip ''cancelled'' = ''cancelled''"
    by (simp add: strip_def is_space_def)
  have fin: "finish scripted_ops ''wiki'' (Some 0) ''What is the status of reservation 4WQ150?''
        (unnumbered scripted_end_state)
      = Inr \<lparr>reward = 1,
           messages = [(''system'', ''wiki''),
                       (''user'', ''What is the status of reservation 4WQ150?''),
                       (''assistant'', ''cancelled'')],
           info = Info (Some 0) 1 [cancel_action] (JDict [])\<rparr>"
    by (simp add: finish_def unnumbered_def scripted_end_state_def scripted_ops_def silent_env_def
          simulate_gt_data_def Let_def strip)
  show ?thesis
    by (simp only: solve_def solve_body_def scripted_ops_startup loop fin sum.case prod.case)
qed


end
